(* ===== verification/Resfet_Base.thy ===== *)
theory Resfet_Base
  imports Main "HOL-Library.Word"
begin

text \<open>
  Prelude of the RESFET development: the machine integers of the code, undefined
  behaviour as an error value, byte buffers and little-endian words, C strings, and the
  generic lemmas and fact collections the component theories share.

  The code is C++ for a Raspberry Pi. A pointer into an array is an index, a byte
  buffer is a list of bytes, and a read or write outside the allocation, which C++
  leaves undefined, is the error value \<open>Inl OutOfBounds\<close>.
\<close>

unbundle bit_operations_syntax

type_synonym u8 = "8 word"
type_synonym u16 = "16 word"
type_synonym u32 = "32 word"
type_synonym u64 = "64 word"

datatype ub = OutOfBounds | Uninitialised | Bad_argument

named_theorems ring_simps \<open>facts about the slots and the contents of a ring buffer\<close>
named_theorems hw_simps \<open>facts that evaluate what a trace of hardware calls commands\<close>
named_theorems byte_simps \<open>lengths and slices of byte buffers\<close>

section \<open>Little-endian words\<close>

fun le_bytes :: "nat \<Rightarrow> 'a::len word \<Rightarrow> u8 list" where
  "le_bytes 0 w = []"
| "le_bytes (Suc n) w = ucast w # le_bytes n (drop_bit 8 w)"

fun of_le :: "u8 list \<Rightarrow> 'a::len word" where
  "of_le [] = 0"
| "of_le (b # bs) = ucast b OR push_bit 8 (of_le bs)"

lemma length_le_bytes [simp, byte_simps]: "length (le_bytes n w) = n"
  by (induction n arbitrary: w) auto

lemma of_le_le_bytes: "of_le (le_bytes n w) = take_bit (8 * n) w"
proof (induction n arbitrary: w)
  case (Suc n)
  show ?case
    by (rule bit_word_eqI) (auto simp: Suc bit_simps not_less)
qed simp

lemma of_le_le_bytes_u16 [simp]: "of_le (le_bytes 2 (w :: u16)) = w"
  by (simp add: of_le_le_bytes take_bit_word_eq_self)

lemma of_le_le_bytes_u64 [simp]: "of_le (le_bytes 8 (w :: u64)) = w"
  by (simp add: of_le_le_bytes take_bit_word_eq_self)

section \<open>Writing into a byte buffer\<close>

text \<open>\<open>poke off bs buf\<close> stores the bytes \<open>bs\<close> at offset \<open>off\<close>; \<open>None\<close> when they do
  not fit the buffer.\<close>

definition poke :: "nat \<Rightarrow> 'a list \<Rightarrow> 'a list \<Rightarrow> 'a list option" where
  "poke off bs buf =
     (if off + length bs \<le> length buf
      then Some (take off buf @ bs @ drop (off + length bs) buf) else None)"

lemma poke_Some_length [byte_simps]: "poke off bs buf = Some buf' \<Longrightarrow> length buf' = length buf"
  by (auto simp: poke_def split: if_splits)

lemma poke_append [byte_simps]:
  "off = length pre \<Longrightarrow> length bs \<le> length old \<Longrightarrow>
   poke off bs (pre @ old) = Some (pre @ bs @ drop (length bs) old)"
  by (simp add: poke_def)

lemma poke_None_iff: "poke off bs buf = None \<longleftrightarrow> length buf < off + length bs"
  by (auto simp: poke_def)

section \<open>C strings\<close>

text \<open>A \<open>char\<close> array as a string: its characters before the first NUL.\<close>

definition NUL :: char where "NUL = CHR 0x00"

definition c_str :: "char list \<Rightarrow> string" where
  "c_str buf = takeWhile (\<lambda>c. c \<noteq> NUL) buf"

lemma c_str_append_NUL [simp]: "NUL \<notin> set s \<Longrightarrow> c_str (s @ NUL # rest) = s"
  unfolding c_str_def by (subst takeWhile_append2) auto

lemma c_str_no_NUL [simp]: "NUL \<notin> set s \<Longrightarrow> c_str s = s"
  by (auto simp: c_str_def takeWhile_eq_all_conv)

lemma NUL_notin_c_str [simp]: "NUL \<notin> set (c_str buf)"
  by (auto simp: c_str_def dest: set_takeWhileD)

section \<open>Decimal numbers\<close>

text \<open>The characters \<open>printf\<close> writes for an unsigned decimal conversion.\<close>

fun nat_str :: "nat \<Rightarrow> string" where
  "nat_str n =
     (if n < 10 then [char_of (48 + n)] else nat_str (n div 10) @ [char_of (48 + n mod 10)])"

declare nat_str.simps [simp del]

definition is_digit :: "char \<Rightarrow> bool" where
  "is_digit c \<longleftrightarrow> 48 \<le> (of_char c :: nat) \<and> (of_char c :: nat) \<le> 57"

definition digits_value :: "string \<Rightarrow> nat" where
  "digits_value s = foldl (\<lambda>n c. 10 * n + (of_char c - 48)) 0 (takeWhile is_digit s)"

lemma of_char_digit: "d < 10 \<Longrightarrow> (of_char (char_of (48 + d :: nat)) :: nat) = 48 + d"
  by simp

lemma nat_str_digits: "\<forall>c \<in> set (nat_str n). is_digit c"
proof (induction n rule: nat_str.induct)
  case (1 n)
  then show ?case
    by (subst nat_str.simps) (auto simp: is_digit_def)
qed

lemma nat_str_nonempty [simp]: "nat_str n \<noteq> []"
  by (subst nat_str.simps) simp

lemma foldl_nat_str: "foldl (\<lambda>n c. 10 * n + (of_char c - 48)) 0 (nat_str n) = n"
proof (induction n rule: nat_str.induct)
  case (1 n)
  then show ?case by (subst nat_str.simps) auto
qed

lemma digits_value_nat_str [simp]: "digits_value (nat_str n) = n"
proof -
  have "takeWhile is_digit (nat_str n) = nat_str n"
    using nat_str_digits by (simp add: takeWhile_eq_all_conv)
  then have "digits_value (nat_str n) = foldl (\<lambda>n c. 10 * n + (of_char c - 48)) 0 (nat_str n)"
    by (simp only: digits_value_def)
  then show ?thesis by (simp only: foldl_nat_str)
qed

lemma nat_str_inj [simp]: "nat_str a = nat_str b \<longleftrightarrow> a = b"
  by (metis digits_value_nat_str)

lemma length_nat_str: "0 < k \<Longrightarrow> n < 10 ^ k \<Longrightarrow> length (nat_str n) \<le> k"
proof (induction n arbitrary: k rule: nat_str.induct)
  case (1 n)
  show ?case
  proof (cases "n < 10")
    case True
    then show ?thesis using "1.prems" by (subst nat_str.simps) simp
  next
    case False
    then have "k \<noteq> 1" using "1.prems" by auto
    then obtain j where k: "k = Suc j" "0 < j"
      using "1.prems" by (cases k) auto
    have "n div 10 < 10 ^ j" using "1.prems" k by auto
    then have "length (nat_str (n div 10)) \<le> j" using "1.IH" False k by blast
    then show ?thesis using False k by (subst nat_str.simps) simp
  qed
qed

section \<open>Unsigned arithmetic\<close>

lemma unat_less [intro]:
  "unat (a8 :: u8) < 256" "unat (a16 :: u16) < 65536"
  "unat (a32 :: u32) < 4294967296" "unat (a64 :: u64) < 18446744073709551616"
  using unsigned_less [of a8, where 'a = nat] unsigned_less [of a16, where 'a = nat]
    unsigned_less [of a32, where 'a = nat] unsigned_less [of a64, where 'a = nat]
  by simp_all

lemma unat_add_no_wrap:
  "unat a + unat b < 2 ^ LENGTH('a) \<Longrightarrow> unat (a + b) = unat a + unat b" for a b :: "'a::len word"
  by (simp add: unat_word_ariths)

lemma unat_diff_no_wrap:
  "unat b \<le> unat a \<Longrightarrow> unat (a - b) = unat a - unat b" for a b :: "'a::len word"
  by (simp add: unat_sub word_le_nat_alt)

text \<open>A subtraction below zero wraps to a value at distance \<open>b - a\<close> from the top.\<close>

lemma unat_diff_wrap:
  "unat a < unat b \<Longrightarrow> unat (a - b) = 2 ^ LENGTH('a) - (unat b - unat a)"
  for a b :: "'a::len word"
  by (simp add: unat_sub_if_size word_size)

lemma set_fold_invariant:
  "P s \<Longrightarrow> (\<And>x s. x \<in> set xs \<Longrightarrow> P s \<Longrightarrow> P (f x s)) \<Longrightarrow> P (fold f xs s)"
  by (induction xs arbitrary: s) auto

end
