(* ===== verification/Resfet_World.thy ===== *)
theory Resfet_World
  imports Resfet_Base
begin

text \<open>
  The state the threads of the program share, and the pin map.

  \<open>RPiGPIOPin\<close> holds the pin names of bcm2835.h the sources use; the aliases of
  rpi_pins.hpp are definitions, so that two names for one pin are equal here because
  they are equal in the header. The bcm2835 library itself is outside the repository:
  a call of it is an entry of the chronological trace \<open>calls\<close> of the world, and
  \<open>commanded\<close> reads off the level a trace last commanded for a pin. A call of a Logger
  by the visitors and the ignition monitor is an entry of \<open>log_calls\<close>.
  The two atomics of main.cpp and the global ADC mutex are the other fields.
\<close>

section \<open>Pins\<close>

datatype RPiGPIOPin =
    RPI_GPIO_P1_22 | RPI_GPIO_P1_24 | RPI_GPIO_P1_26
  | RPI_V2_GPIO_P1_11 | RPI_V2_GPIO_P1_13 | RPI_V2_GPIO_P1_15 | RPI_V2_GPIO_P1_18
  | RPI_V2_GPIO_P1_22 | RPI_V2_GPIO_P1_24 | RPI_V2_GPIO_P1_26
  | RPI_V2_GPIO_P1_32 | RPI_V2_GPIO_P1_33

definition ADC_0_CS :: RPiGPIOPin where "ADC_0_CS = RPI_V2_GPIO_P1_26"
definition ADC_1_CS :: RPiGPIOPin where "ADC_1_CS = RPI_V2_GPIO_P1_24"
definition ADC_2_CS :: RPiGPIOPin where "ADC_2_CS = RPI_V2_GPIO_P1_22"

definition DRIVER1 :: RPiGPIOPin where "DRIVER1 = RPI_V2_GPIO_P1_11"
definition DRIVER2 :: RPiGPIOPin where "DRIVER2 = RPI_V2_GPIO_P1_13"
definition DRIVER3 :: RPiGPIOPin where "DRIVER3 = RPI_V2_GPIO_P1_15"
definition DRIVER4 :: RPiGPIOPin where "DRIVER4 = RPI_V2_GPIO_P1_18"
definition DRIVER5 :: RPiGPIOPin where "DRIVER5 = RPI_V2_GPIO_P1_33"
definition DRIVER6 :: RPiGPIOPin where "DRIVER6 = RPI_V2_GPIO_P1_32"

definition MAIN_VALVE :: RPiGPIOPin where "MAIN_VALVE = DRIVER1"
definition PRESSURE_VALVE :: RPiGPIOPin where "PRESSURE_VALVE = DRIVER2"
definition IGN_START :: RPiGPIOPin where "IGN_START = DRIVER6"
definition MAIN_FEED_VALVE :: RPiGPIOPin where "MAIN_FEED_VALVE = DRIVER1"
definition OXI_VALVE :: RPiGPIOPin where "OXI_VALVE = DRIVER2"
definition GROUND_VENT_VALVE :: RPiGPIOPin where "GROUND_VENT_VALVE = DRIVER3"

lemmas driver_defs = DRIVER1_def DRIVER2_def DRIVER3_def DRIVER4_def DRIVER5_def DRIVER6_def

lemmas pin_defs = driver_defs ADC_0_CS_def ADC_1_CS_def ADC_2_CS_def MAIN_VALVE_def
  PRESSURE_VALVE_def IGN_START_def MAIN_FEED_VALVE_def OXI_VALVE_def GROUND_VENT_VALVE_def

section \<open>Calls of the hardware library and of the loggers\<close>

datatype level = LOW | HIGH

datatype hw_call =
    Gpio_fsel_outp RPiGPIOPin
  | Gpio_write RPiGPIOPin level
  | Spi_begin
  | Spi_chipSelect_none
  | Spi_setBitOrder_msbfirst
  | Spi_setDataMode3
  | Spi_setClockDivider_1024
  | Spi_setChipSelectPolarity nat level
  | Spi_transfernb "u8 list"

datatype LogLevel = SILENT | ERROR | INFO | DEBUG

datatype log_arg = Pin RPiGPIOPin | Num nat | SNum int | Str string

datatype log_call = Log_call LogLevel string "log_arg list"

record world =
  calls :: "hw_call list"
  log_calls :: "log_call list"
  adc_mutex :: bool
  ignitionOn :: bool
  pressureShutoff :: bool

definition do_calls :: "hw_call list \<Rightarrow> world \<Rightarrow> world" where
  "do_calls cs w = w\<lparr>calls := calls w @ cs\<rparr>"

definition gpio_write :: "RPiGPIOPin \<Rightarrow> level \<Rightarrow> world \<Rightarrow> world" where
  "gpio_write p l = do_calls [Gpio_write p l]"

definition logger_log :: "LogLevel \<Rightarrow> string \<Rightarrow> log_arg list \<Rightarrow> world \<Rightarrow> world" where
  "logger_log lv fmt args w = w\<lparr>log_calls := log_calls w @ [Log_call lv fmt args]\<rparr>"

lemma world_fields [simp, hw_simps]:
  "calls (do_calls cs w) = calls w @ cs"
  "log_calls (do_calls cs w) = log_calls w"
  "adc_mutex (do_calls cs w) = adc_mutex w"
  "ignitionOn (do_calls cs w) = ignitionOn w"
  "pressureShutoff (do_calls cs w) = pressureShutoff w"
  "calls (gpio_write p l w) = calls w @ [Gpio_write p l]"
  "log_calls (gpio_write p l w) = log_calls w"
  "adc_mutex (gpio_write p l w) = adc_mutex w"
  "ignitionOn (gpio_write p l w) = ignitionOn w"
  "pressureShutoff (gpio_write p l w) = pressureShutoff w"
  "calls (logger_log lv fmt args w) = calls w"
  "adc_mutex (logger_log lv fmt args w) = adc_mutex w"
  "ignitionOn (logger_log lv fmt args w) = ignitionOn w"
  "pressureShutoff (logger_log lv fmt args w) = pressureShutoff w"
  by (simp_all add: do_calls_def gpio_write_def logger_log_def)

section \<open>What a trace of calls commands\<close>

text \<open>\<open>commanded_by key cs\<close> maps the key of a pin to the level last written to a pin
  with that key; \<open>commanded\<close> keeps the names apart, and a key that reads a pin's number
  in bcm2835.h identifies the names that share it.\<close>

fun command_call :: "(RPiGPIOPin \<Rightarrow> 'k) \<Rightarrow> hw_call \<Rightarrow> ('k \<rightharpoonup> level) \<Rightarrow> ('k \<rightharpoonup> level)" where
  "command_call key (Gpio_write p l) m = m(key p \<mapsto> l)"
| "command_call key _ m = m"

definition commanded_by :: "(RPiGPIOPin \<Rightarrow> 'k) \<Rightarrow> hw_call list \<Rightarrow> 'k \<rightharpoonup> level" where
  "commanded_by key cs = fold (command_call key) cs Map.empty"

abbreviation commanded :: "hw_call list \<Rightarrow> RPiGPIOPin \<rightharpoonup> level" where
  "commanded \<equiv> commanded_by (\<lambda>p. p)"

lemma commanded_Nil [simp]: "commanded_by key [] = Map.empty"
  by (simp add: commanded_by_def)

lemma commanded_snoc [simp, hw_simps]:
  "commanded_by key (cs @ [c]) = command_call key c (commanded_by key cs)"
  by (simp add: commanded_by_def)

lemma fold_command_call: "fold (command_call key) cs m = m ++ commanded_by key cs"
proof (induction cs rule: rev_induct)
  case Nil
  show ?case by simp
next
  case (snoc c cs)
  then show ?case by (cases c) (auto simp: map_add_def fun_eq_iff split: option.splits)
qed

lemma commanded_append [hw_simps]:
  "commanded_by key (cs @ ds) = commanded_by key cs ++ commanded_by key ds"
  using fold_command_call [of key ds "commanded_by key cs"] by (simp add: commanded_by_def)

lemma commanded_Cons [hw_simps]:
  "commanded_by key (c # cs) = command_call key c Map.empty ++ commanded_by key cs"
  using commanded_append [of key "[c]" cs] commanded_snoc [of key "[]" c] by simp

section \<open>Writes to pins that are not outputs yet\<close>

text \<open>The pins a trace writes although no earlier call made them outputs; \<open>seen\<close> holds
  the pins made outputs before the trace.\<close>

fun unconfigured_writes :: "RPiGPIOPin list \<Rightarrow> hw_call list \<Rightarrow> RPiGPIOPin list" where
  "unconfigured_writes seen [] = []"
| "unconfigured_writes seen (Gpio_fsel_outp p # cs) = unconfigured_writes (p # seen) cs"
| "unconfigured_writes seen (Gpio_write p l # cs) =
     (if p \<in> set seen then unconfigured_writes seen cs else p # unconfigured_writes seen cs)"
| "unconfigured_writes seen (_ # cs) = unconfigured_writes seen cs"

fun configured :: "hw_call list \<Rightarrow> RPiGPIOPin list" where
  "configured [] = []"
| "configured (Gpio_fsel_outp p # cs) = p # configured cs"
| "configured (_ # cs) = configured cs"

lemma configured_append [simp]: "configured (cs @ ds) = configured cs @ configured ds"
  by (induction cs rule: configured.induct) auto

lemma unconfigured_writes_seen_cong:
  "set s = set s' \<Longrightarrow> unconfigured_writes s cs = unconfigured_writes s' cs"
proof (induction s cs arbitrary: s' rule: unconfigured_writes.induct)
  case (2 seen p cs)
  have "unconfigured_writes (p # seen) cs = unconfigured_writes (p # s') cs"
    by (rule "2.IH") (simp add: "2.prems")
  then show ?case by simp
next
  case (3 seen p l cs)
  show ?case
  proof (cases "p \<in> set seen")
    case True
    then have "unconfigured_writes seen cs = unconfigured_writes s' cs"
      using 3 by blast
    then show ?thesis using True "3.prems" by simp
  next
    case False
    then have "unconfigured_writes seen cs = unconfigured_writes s' cs"
      using 3 by blast
    then show ?thesis using False "3.prems" by simp
  qed
qed auto

lemma unconfigured_writes_append:
  "unconfigured_writes s (cs @ ds) =
     unconfigured_writes s cs @ unconfigured_writes (s @ configured cs) ds"
proof (induction s cs rule: unconfigured_writes.induct)
  case (2 seen p cs)
  have "set ((p # seen) @ configured cs) = set (seen @ p # configured cs)" by auto
  then show ?case
    using "2.IH" unconfigured_writes_seen_cong [of "(p # seen) @ configured cs"
        "seen @ p # configured cs" ds] by simp
qed auto

end
