(* ===== verification/Resfet_Adc.thy ===== *)
theory Resfet_Adc
  imports Resfet_World
begin

text \<open>
  The ADC reader (include/adc/adc.hpp, src/adc/adc.cpp): the SENSOR enumeration and its
  tables, the table of registered channels, and the SPI exchange that reads one
  channel.

  The global mutex is the field \<open>adc_mutex\<close> of the world: locking it while it is held
  is \<open>Inl Deadlock\<close>, since a call that keeps it never releases it later. An entry of
  \<open>adc_infos\<close> is \<open>None\<close> until it is registered: the array is not initialised. The bytes
  the ADC answers are a parameter \<open>spi\<close>, a function of the calls so far and the three
  bytes sent. Plain \<open>char\<close> is signed or not depending on the target (unsigned for the ARM
  of the Raspberry Pi): \<open>char_signed\<close> says which.
\<close>

section \<open>Sensors\<close>

datatype SENSOR =
  LC1 | LC2 | LC3 | LC4 | LC5 | PT1 | PT2 | PT3 | PT4 | TC1 | TC2 | TC3 | TC4 | NUM_SENSORS

definition all_sensors :: "SENSOR list" where
  "all_sensors = [LC1, LC2, LC3, LC4, LC5, PT1, PT2, PT3, PT4, TC1, TC2, TC3, TC4]"

fun sensor_code :: "SENSOR \<Rightarrow> u8" where
  "sensor_code LC1 = 0" | "sensor_code LC2 = 1" | "sensor_code LC3 = 2"
| "sensor_code LC4 = 3" | "sensor_code LC5 = 4" | "sensor_code PT1 = 5"
| "sensor_code PT2 = 6" | "sensor_code PT3 = 7" | "sensor_code PT4 = 8"
| "sensor_code TC1 = 9" | "sensor_code TC2 = 10" | "sensor_code TC3 = 11"
| "sensor_code TC4 = 12" | "sensor_code NUM_SENSORS = 13"

instantiation SENSOR :: linorder
begin

definition less_eq_SENSOR :: "SENSOR \<Rightarrow> SENSOR \<Rightarrow> bool" where
  "less_eq_SENSOR a b \<longleftrightarrow> unat (sensor_code a) \<le> unat (sensor_code b)"

definition less_SENSOR :: "SENSOR \<Rightarrow> SENSOR \<Rightarrow> bool" where
  "less_SENSOR a b \<longleftrightarrow> unat (sensor_code a) < unat (sensor_code b)"

instance
proof
  fix a b :: SENSOR
  show "a \<le> b \<Longrightarrow> b \<le> a \<Longrightarrow> a = b"
    by (cases a; cases b; simp add: less_eq_SENSOR_def)
qed (auto simp: less_eq_SENSOR_def less_SENSOR_def)

end

lemma sensor_code_inj [simp]: "sensor_code a = sensor_code b \<longleftrightarrow> a = b"
  by (metis less_eq_SENSOR_def order_antisym order_refl)

definition SENSOR_PINS :: "RPiGPIOPin list" where
  "SENSOR_PINS =
    [RPI_GPIO_P1_22, RPI_GPIO_P1_22, RPI_GPIO_P1_22, RPI_GPIO_P1_22, RPI_GPIO_P1_22,
     RPI_GPIO_P1_24, RPI_GPIO_P1_24, RPI_GPIO_P1_24, RPI_GPIO_P1_24,
     RPI_GPIO_P1_26, RPI_GPIO_P1_26, RPI_GPIO_P1_26, RPI_GPIO_P1_26]"

definition SENSOR_CHANNELS :: "u8 list" where
  "SENSOR_CHANNELS = [0, 1, 2, 3, 4, 0, 1, 2, 3, 0, 1, 2, 3]"

definition SENSOR_FREQS :: "u16 list" where
  "SENSOR_FREQS = [2000, 2000, 2000, 2000, 2000, 500, 500, 500, 500, 20, 20, 20, 20]"

definition SENSOR_NAMES :: "string list" where
  "SENSOR_NAMES =
    [''LC1'', ''LC2'', ''LC3'', ''LC4'', ''LC5'', ''PT1'', ''PT2'', ''PT3'', ''PT4'',
     ''TC1'', ''TC2'', ''TC3'', ''TC4'']"

section \<open>The reader\<close>

record adc_info =
  cs_pin :: RPiGPIOPin
  channel :: u8

type_synonym adc_reader = "adc_info option list"

datatype adc_error = Deadlock | Undefined ub

definition new_adc_reader :: adc_reader where
  "new_adc_reader = replicate 13 None"

definition add_adc_info :: "u8 \<Rightarrow> RPiGPIOPin \<Rightarrow> u8 \<Rightarrow> adc_reader \<Rightarrow> ub + adc_reader" where
  "add_adc_info sensor_index pin chan infos =
     (if sensor_index > sensor_code NUM_SENSORS then Inr infos
      else if unat sensor_index < length infos
      then Inr (infos[unat sensor_index := Some \<lparr>cs_pin = pin, channel = chan\<rparr>])
      else Inl OutOfBounds)"

text \<open>Integer promotion of a \<open>char\<close>, and the two assignments that reassemble the answer.\<close>

definition widen :: "bool \<Rightarrow> u8 \<Rightarrow> u32" where
  "widen char_signed b = (if char_signed then scast b else ucast b)"

definition low_byte :: "bool \<Rightarrow> u8 \<Rightarrow> u8 \<Rightarrow> u8" where
  "low_byte char_signed b1 b2 =
     ucast ((signed_drop_bit 2 (widen char_signed b2) OR
             push_bit 6 (widen char_signed b1 AND 3)) AND 0xFF)"

definition high_byte :: "bool \<Rightarrow> u8 \<Rightarrow> u8" where
  "high_byte char_signed b1 = ucast (signed_drop_bit 2 (widen char_signed b1) AND 0xFF)"

definition bswap_16 :: "u16 \<Rightarrow> u16" where
  "bswap_16 x = push_bit 8 x OR drop_bit 8 x"

definition assemble :: "bool \<Rightarrow> u8 \<Rightarrow> u8 \<Rightarrow> u16" where
  "assemble char_signed b1 b2 =
     bswap_16 (of_le [high_byte char_signed b1, low_byte char_signed b1 b2])"

definition channel_byte :: "u8 \<Rightarrow> u8" where
  "channel_byte chan = push_bit 4 1 OR push_bit 3 1 OR chan"

definition read_item ::
  "bool \<Rightarrow> (hw_call list \<Rightarrow> u8 list \<Rightarrow> u8 \<times> u8 \<times> u8) \<Rightarrow> adc_reader \<Rightarrow> u8 \<Rightarrow> world \<Rightarrow>
   adc_error + (u16 \<times> world)" where
  "read_item char_signed spi infos sensor_index w =
     (if adc_mutex w then Inl Deadlock else
      let w1 = w\<lparr>adc_mutex := True\<rparr> in
      if sensor_index > sensor_code NUM_SENSORS then Inr (- 1, w1)
      else if \<not> unat sensor_index < length infos then Inl (Undefined OutOfBounds)
      else case infos ! unat sensor_index of
        None \<Rightarrow> Inl (Undefined Uninitialised)
      | Some info \<Rightarrow>
          let write_buf = [channel_byte (channel info), 0, 0];
              w2 = do_calls [Spi_chipSelect_none] w1;
              w3 = gpio_write (cs_pin info) LOW w2;
              (b0, b1, b2) = spi (calls w3) write_buf;
              w4 = do_calls [Spi_transfernb write_buf] w3;
              w5 = gpio_write (cs_pin info) HIGH w4
          in Inr (assemble char_signed b1 b2, w5\<lparr>adc_mutex := False\<rparr>))"

text \<open>The debugging counter: a static \<open>uint16_t\<close> that wraps.\<close>

definition count_up :: "u16 \<Rightarrow> u16 \<times> u16" where
  "count_up num = (num, num + 1)"

section \<open>Registration\<close>

text \<open>The loop of the PeriodicThread constructor over its sensors.\<close>

fun register_sensors :: "SENSOR list \<Rightarrow> adc_reader \<Rightarrow> ub + adc_reader" where
  "register_sensors [] infos = Inr infos"
| "register_sensors (s # ss) infos =
     (let i = unat (sensor_code s) in
      if i < length SENSOR_PINS then
        (case add_adc_info (sensor_code s) (SENSOR_PINS ! i) (SENSOR_CHANNELS ! i) infos of
           Inl e \<Rightarrow> Inl e
         | Inr infos' \<Rightarrow> register_sensors ss infos')
      else Inl OutOfBounds)"

definition sensor_info :: "SENSOR \<Rightarrow> adc_info" where
  "sensor_info s = \<lparr>cs_pin = SENSOR_PINS ! unat (sensor_code s),
                    channel = SENSOR_CHANNELS ! unat (sensor_code s)\<rparr>"

definition registered :: "adc_reader \<Rightarrow> SENSOR \<Rightarrow> bool" where
  "registered infos s \<longleftrightarrow>
     length infos = 13 \<and> s \<noteq> NUM_SENSORS \<and> infos ! unat (sensor_code s) = Some (sensor_info s)"

lemma sensor_code_less: "s \<noteq> NUM_SENSORS \<Longrightarrow> unat (sensor_code s) < 13"
  by (cases s) simp_all

lemma sensor_code_le: "\<not> sensor_code s > 13"
  by (cases s) simp_all

lemma unat_sensor_code_inj: "unat (sensor_code a) = unat (sensor_code b) \<longleftrightarrow> a = b"
  by (simp add: word_unat_eq_iff [symmetric])

lemma length_tables [simp]:
  "length SENSOR_PINS = 13" "length SENSOR_CHANNELS = 13" "length SENSOR_FREQS = 13"
  "length SENSOR_NAMES = 13" "length new_adc_reader = 13"
  by (simp_all add: SENSOR_PINS_def SENSOR_CHANNELS_def SENSOR_FREQS_def SENSOR_NAMES_def
      new_adc_reader_def)

lemma add_adc_info_sensor:
  "s \<noteq> NUM_SENSORS \<Longrightarrow> length infos = 13 \<Longrightarrow>
   add_adc_info (sensor_code s) p c infos =
     Inr (infos[unat (sensor_code s) := Some \<lparr>cs_pin = p, channel = c\<rparr>])"
  using sensor_code_less [of s] sensor_code_le [of s] by (simp add: add_adc_info_def)

lemma register_sensors_Inr:
  assumes "NUM_SENSORS \<notin> set ss" and "length infos = 13"
  shows "\<exists>infos'. register_sensors ss infos = Inr infos' \<and> length infos' = 13 \<and>
     (\<forall>s. s \<noteq> NUM_SENSORS \<longrightarrow> infos' ! unat (sensor_code s) =
        (if s \<in> set ss then Some (sensor_info s) else infos ! unat (sensor_code s)))"
  using assms
proof (induction ss arbitrary: infos)
  case Nil
  then show ?case by simp
next
  case (Cons a ss)
  let ?i1 = "infos[unat (sensor_code a) := Some (sensor_info a)]"
  have a: "a \<noteq> NUM_SENSORS" using Cons.prems by auto
  have step: "register_sensors (a # ss) infos = register_sensors ss ?i1"
    using a Cons.prems sensor_code_less [OF a] by (simp add: add_adc_info_sensor sensor_info_def Let_def)
  obtain infos' where r: "register_sensors ss ?i1 = Inr infos'" "length infos' = 13"
    and get: "\<And>s. s \<noteq> NUM_SENSORS \<Longrightarrow> infos' ! unat (sensor_code s) =
        (if s \<in> set ss then Some (sensor_info s) else ?i1 ! unat (sensor_code s))"
    using Cons.IH [of ?i1] Cons.prems by auto
  have "?i1 ! unat (sensor_code s) =
      (if s = a then Some (sensor_info s) else infos ! unat (sensor_code s))" for s
    using sensor_code_less [OF a] Cons.prems
    by (auto simp: nth_list_update unat_sensor_code_inj)
  then show ?case using step r get by auto
qed

lemma register_sensors_all:
  assumes "NUM_SENSORS \<notin> set ss"
  obtains infos where "register_sensors ss new_adc_reader = Inr infos"
    and "\<And>s. s \<in> set ss \<Longrightarrow> registered infos s"
    and "\<And>s. s \<noteq> NUM_SENSORS \<Longrightarrow> s \<notin> set ss \<Longrightarrow> infos ! unat (sensor_code s) = None"
proof -
  obtain infos where r: "register_sensors ss new_adc_reader = Inr infos" "length infos = 13"
    and get: "\<forall>s. s \<noteq> NUM_SENSORS \<longrightarrow> infos ! unat (sensor_code s) =
        (if s \<in> set ss then Some (sensor_info s) else new_adc_reader ! unat (sensor_code s))"
    using register_sensors_Inr [OF assms, of new_adc_reader] by auto
  show ?thesis
  proof (rule that [OF r(1)])
    show "registered infos s" if "s \<in> set ss" for s
    proof -
      have "s \<noteq> NUM_SENSORS" using that assms by blast
      then show ?thesis using that r(2) get by (simp add: registered_def)
    qed
    show "infos ! unat (sensor_code s) = None" if "s \<noteq> NUM_SENSORS" "s \<notin> set ss" for s
      using that get sensor_code_less [of s] by (simp add: new_adc_reader_def)
  qed
qed

section \<open>The reading\<close>

text \<open>On a target with unsigned \<open>char\<close> the two shifted bytes and the byte swap are one
  14-bit right shift of the 16-bit answer.\<close>

lemma assemble_unsigned_bits:
  "assemble False b1 b2 = drop_bit 2 (push_bit 8 (ucast b1) OR ucast b2)"
proof -
  have masks: "(3 :: u32) = mask 2" "(0xFF :: u32) = mask 8" by (simp_all add: mask_eq_exp_minus_1)
  have hi: "high_byte False b1 = drop_bit 2 b1"
    unfolding high_byte_def widen_def masks
    by (rule bit_word_eqI) (auto simp: bit_simps dest: bit_imp_le_length)
  have lo: "low_byte False b1 b2 = drop_bit 2 b2 OR push_bit 6 b1"
    unfolding low_byte_def widen_def masks
    by (rule bit_word_eqI) (auto simp: bit_simps dest: bit_imp_le_length)
  have of_le2: "of_le [x, y] = (ucast x OR push_bit 8 (ucast y) :: u16)" for x y
    by simp
  show ?thesis
    unfolding assemble_def bswap_16_def of_le2 hi lo
  proof (rule bit_word_eqI)
    fix n
    assume "n < LENGTH(16)"
    have shift: "\<not> n < 8 \<Longrightarrow> Suc (Suc (n - 8)) = n - 6" by simp
    show "bit (push_bit 8 (ucast (drop_bit 2 b1) OR push_bit 8 (ucast (drop_bit 2 b2 OR push_bit 6 b1)))
          OR drop_bit 8 (ucast (drop_bit 2 b1) OR push_bit 8 (ucast (drop_bit 2 b2 OR push_bit 6 b1))) :: u16) n
        = bit (drop_bit 2 (push_bit 8 (ucast b1) OR ucast b2) :: u16) n"
      by (cases "n < 8") (auto simp: bit_simps shift dest: bit_imp_le_length)
  qed
qed

lemma unat_push_or: "unat (push_bit 8 (ucast (b1 :: u8)) OR ucast (b2 :: u8) :: u16) =
   256 * unat b1 + unat b2"
proof -
  have "(push_bit 8 (ucast b1) OR ucast b2 :: u16) = push_bit 8 (ucast b1) + ucast b2"
    by (rule disjunctive_add [symmetric]) (auto simp: bit_simps dest: bit_imp_le_length)
  moreover have "unat (push_bit 8 (ucast b1) :: u16) = 256 * unat b1"
    using unat_less(1) [of b1] by (simp add: push_bit_eq_mult unat_word_ariths unsigned_ucast_eq take_bit_nat_eq_self)
  moreover have "unat (ucast b2 :: u16) = unat b2"
    using unat_less(1) [of b2] by (simp add: unsigned_ucast_eq take_bit_nat_eq_self)
  ultimately show ?thesis
    using unat_less(1) [of b1] unat_less(1) [of b2]
    by (simp add: unat_word_ariths)
qed

lemma unat_assemble_unsigned: "unat (assemble False b1 b2) = (256 * unat b1 + unat b2) div 4"
  by (simp add: assemble_unsigned_bits drop_bit_eq_div unat_div unat_push_or)

lemma unat_channel_byte: "unat chan < 8 \<Longrightarrow> unat (channel_byte chan) = 24 + unat chan"
proof -
  assume c: "unat chan < 8"
  have hi: "\<not> bit chan n" if "3 \<le> n" for n
  proof -
    have "unat chan < 2 ^ n"
      using c power_increasing [OF that, of "2 :: nat"] by simp
    then have "\<not> bit (unat chan) n" by (simp add: bit_iff_odd)
    then show ?thesis by (simp add: bit_unsigned_iff)
  qed
  have "channel_byte chan = 24 + chan"
  proof -
    have "push_bit 4 1 OR push_bit 3 1 = (24 :: u8)" by simp
    moreover have "24 OR chan = 24 + chan"
    proof (rule disjunctive_add [symmetric])
      fix n
      have "\<not> bit (24 :: u8) n" if "n < 3"
        using that by (auto simp: less_Suc_eq numeral_3_eq_3)
      then show "\<not> bit (24 :: u8) n \<or> \<not> bit chan n" using hi by (meson not_le)
    qed
    ultimately show ?thesis
      unfolding channel_byte_def or.assoc [symmetric] by (simp only:)
  qed
  then show ?thesis using c by (simp add: unat_add_no_wrap)
qed

lemma sensor_channel_small: "s \<noteq> NUM_SENSORS \<Longrightarrow> unat (channel (sensor_info s)) < 8"
  by (cases s) (simp_all add: sensor_info_def SENSOR_CHANNELS_def)

text \<open>The calls one read of a registered sensor makes.\<close>

definition read_calls :: "SENSOR \<Rightarrow> hw_call list" where
  "read_calls s =
    [Spi_chipSelect_none, Gpio_write (cs_pin (sensor_info s)) LOW,
     Spi_transfernb [24 + channel (sensor_info s), 0, 0],
     Gpio_write (cs_pin (sensor_info s)) HIGH]"

lemma channel_byte_sensor: "s \<noteq> NUM_SENSORS \<Longrightarrow> channel_byte (channel (sensor_info s)) = 24 + channel (sensor_info s)"
  using unat_channel_byte [of "channel (sensor_info s)"] sensor_channel_small [of s]
  by (simp add: word_unat_eq_iff unat_add_no_wrap)

lemma read_item_registered:
  assumes "registered infos s" and "\<not> adc_mutex w"
    and "spi (calls w @ take 2 (read_calls s)) [24 + channel (sensor_info s), 0, 0] = (b0, b1, b2)"
  shows "read_item cs spi infos (sensor_code s) w =
     Inr (assemble cs b1 b2, w\<lparr>calls := calls w @ read_calls s, adc_mutex := False\<rparr>)"
  using assms sensor_code_less [of s] sensor_code_le [of s] channel_byte_sensor [of s]
  by (simp add: read_item_def registered_def read_calls_def Let_def do_calls_def gpio_write_def)

section \<open>Properties\<close>

text \<open>C13: reading a registered sensor selects its ADC, sends the start bit, the single-ended
  mode bit and the sensor's channel, deselects the ADC, releases the mutex, and returns the
  14-bit value of the last two bytes of the answer.\<close>

theorem read_item_value:
  assumes "registered infos s" and "\<not> adc_mutex w"
    and "spi (calls w @ take 2 (read_calls s)) [24 + channel (sensor_info s), 0, 0] = (b0, b1, b2)"
  shows "\<exists>r. read_item False spi infos (sensor_code s) w =
       Inr (r, w\<lparr>calls := calls w @ read_calls s, adc_mutex := False\<rparr>) \<and>
     unat r = (256 * unat b1 + unat b2) div 4 \<and> unat r < 2 ^ 14"
proof -
  have "(256 * unat b1 + unat b2) div 4 < 2 ^ 14"
    using unat_less(1) [of b1] unat_less(1) [of b2] by simp
  then show ?thesis
    using read_item_registered [of infos s w spi b0 b1 b2 False, OF assms] unat_assemble_unsigned [of b1 b2] by auto
qed

definition idle_world :: world where
  "idle_world = \<lparr>calls = [], log_calls = [], adc_mutex = False, ignitionOn = False, pressureShutoff = False\<rparr>"

definition full_reader :: adc_reader where
  "full_reader = map (\<lambda>s. Some (sensor_info s)) all_sensors"

lemma full_reader_registered: "s \<noteq> NUM_SENSORS \<Longrightarrow> registered full_reader s"
  by (cases s) (simp_all add: registered_def full_reader_def all_sensors_def)

theorem read_item_value_witness:
  "\<exists>r. read_item False (\<lambda>_ _. (0, 7, 129)) full_reader 5 idle_world =
       Inr (r, idle_world\<lparr>calls := read_calls PT1, adc_mutex := False\<rparr>) \<and> unat r = 480"
  using read_item_value [of full_reader PT1 idle_world "\<lambda>_ _. (0, 7, 129)" 0 7 129]
    full_reader_registered [of PT1] by (auto simp: idle_world_def)

text \<open>C38: a read of an index above \<open>NUM_SENSORS\<close> returns 65535 without releasing the global
  mutex, and after it every read of every reader blocks.\<close>

theorem rejected_read_deadlocks_readers:
  assumes "\<not> adc_mutex w" and "idx > sensor_code NUM_SENSORS"
  shows "\<exists>w'. read_item cs spi infos idx w = Inr (65535, w') \<and> calls w' = calls w \<and>
     (\<forall>cs' spi' infos' i. read_item cs' spi' infos' i w' = Inl Deadlock)"
  using assms by (simp add: read_item_def Let_def)

theorem rejected_read_deadlocks_readers_witness:
  "\<exists>w'. read_item False (\<lambda>_ _. (0, 0, 0)) full_reader 200 idle_world = Inr (65535, w') \<and>
     read_item False (\<lambda>_ _. (0, 0, 0)) full_reader 0 w' = Inl Deadlock"
  using rejected_read_deadlocks_readers [of idle_world 200 False "\<lambda>_ _. (0, 0, 0)" full_reader]
  by (auto simp: idle_world_def)

text \<open>The bounds checks let the index \<open>NUM_SENSORS\<close> itself through: registering or reading
  it, and no other index, is outside the array.\<close>

lemma sensor_index_check_off_by_one:
  assumes "length infos = 13" and "\<not> adc_mutex w"
  shows "(add_adc_info idx p c infos = Inl OutOfBounds \<longleftrightarrow> idx = sensor_code NUM_SENSORS) \<and>
     (read_item cs spi infos idx w = Inl (Undefined OutOfBounds) \<longleftrightarrow> idx = sensor_code NUM_SENSORS)"
proof -
  have "\<not> 13 < idx \<Longrightarrow> \<not> unat idx < 13 \<longleftrightarrow> idx = 13"
    by (auto simp: word_less_nat_alt word_unat_eq_iff)
  then show ?thesis
    using assms by (auto simp: add_adc_info_def read_item_def Let_def split: option.splits prod.splits)
qed

lemma sensor_index_check_off_by_one_witness:
  "add_adc_info 13 RPI_GPIO_P1_22 0 new_adc_reader = Inl OutOfBounds"
  using sensor_index_check_off_by_one [of new_adc_reader idle_world 13 RPI_GPIO_P1_22 0]
  by (simp add: idle_world_def)

text \<open>Registering any list of real sensors from an empty reader succeeds, and registers
  exactly those sensors with the pins and channels of the tables.\<close>

lemma register_sensors_registers:
  assumes "NUM_SENSORS \<notin> set ss"
  shows "\<exists>infos. register_sensors ss new_adc_reader = Inr infos \<and>
     (\<forall>s. s \<noteq> NUM_SENSORS \<longrightarrow> (if s \<in> set ss then registered infos s
        else infos ! unat (sensor_code s) = None))"
  using register_sensors_all [OF assms] by metis

lemma register_sensors_registers_witness:
  "\<exists>infos. register_sensors [PT1, PT2] new_adc_reader = Inr infos \<and> registered infos PT2"
  using register_sensors_registers [of "[PT1, PT2]"] by auto

lemma u8_sign_bit: "bit (b :: u8) 7 \<longleftrightarrow> 128 \<le> unat b"
proof -
  have "bit b 7 \<longleftrightarrow> bit (unat b) 7" by (simp add: bit_unsigned_iff)
  also have "\<dots> \<longleftrightarrow> odd (unat b div 128)" by (simp add: bit_iff_odd)
  also have "\<dots> \<longleftrightarrow> 128 \<le> unat b"
  proof (cases "unat b < 128")
    case False
    then have "unat b div 128 = 1" using unat_less(1) [of b] by simp
    then show ?thesis using False by simp
  qed simp
  finally show ?thesis .
qed

lemma widen_no_sign: "unat b < 128 \<Longrightarrow> widen True b = widen False b"
proof -
  assume "unat b < 128"
  then have no_sign: "\<not> bit b 7" by (simp add: u8_sign_bit)
  have far: "\<not> bit b n" if "7 \<le> n" for n
    using no_sign that bit_imp_le_length [of b n] by (cases "n = 7") auto
  have "scast b = (ucast b :: u32)"
  proof (rule bit_word_eqI)
    fix n
    assume "n < LENGTH(32)"
    show "bit (scast b :: u32) n = bit (ucast b :: u32) n"
      using no_sign far [of n] by (cases "n < 7") (auto simp: bit_simps min_def)
  qed
  then show ?thesis by (simp add: widen_def)
qed

lemma bit_assemble_15: "bit (assemble cs b1 b2) 15 = bit (widen cs b1) 9"
proof -
  have "(0xFF :: u32) = mask 8" by (simp add: mask_eq_exp_minus_1)
  then have "bit (high_byte cs b1) 7 = bit (widen cs b1) 9"
    unfolding high_byte_def by (simp only:) (simp add: bit_simps)
  moreover have "bit (assemble cs b1 b2) 15 = bit (high_byte cs b1) 7"
    unfolding assemble_def bswap_16_def of_le.simps
    by (auto simp only: bit_simps) (auto simp: bit_simps dest: bit_imp_le_length)
  ultimately show ?thesis by simp
qed

text \<open>Where plain \<open>char\<close> is signed the reading is the same only if no sign bit is set:
  it agrees for answer bytes below 128, and is off for every answer whose middle byte is
  128 or more.\<close>

lemma signed_char_reading:
  "(unat b1 < 128 \<and> unat b2 < 128 \<longrightarrow> assemble True b1 b2 = assemble False b1 b2) \<and>
   (128 \<le> unat b1 \<longrightarrow> assemble True b1 b2 \<noteq> assemble False b1 b2)"
proof (intro conjI impI)
  assume "unat b1 < 128 \<and> unat b2 < 128"
  then show "assemble True b1 b2 = assemble False b1 b2"
    by (simp add: assemble_def high_byte_def low_byte_def widen_no_sign)
next
  assume "128 \<le> unat b1"
  then have "bit (widen True b1) 9" and "\<not> bit (widen False b1) 9"
    using u8_sign_bit [of b1] by (auto simp: widen_def bit_simps min_def dest: bit_imp_le_length)
  then show "assemble True b1 b2 \<noteq> assemble False b1 b2"
    using bit_assemble_15 by metis
qed

lemma signed_char_reading_witness:
  "assemble True 7 100 = assemble False 7 100 \<and> assemble True 128 0 \<noteq> assemble False 128 0"
  using signed_char_reading [of 7 100] signed_char_reading [of 128 0] by simp

end
