(* ===== verification/Resfet_Ring.thy ===== *)
theory Resfet_Ring
  imports Resfet_Adc
begin

text \<open>
  The circular buffer (include/circular_buffer/circular_buffer.hpp,
  src/circular_buffer/circular_buffer.cpp): one per sensor, filled by
  \<open>push_data_item\<close> and emptied into a packet by \<open>get_data\<close>.

  The pointers \<open>end\<close>, \<open>head\<close> and \<open>tail\<close> are indices from \<open>data\<close>. \<open>data\<close> lists the
  cells the allocation really holds, so that an access past it is \<open>Inl OutOfBounds\<close>: the
  constructor takes the memory that \<open>new data_item[num_items]\<close> returned as an argument,
  because its contents are indeterminate. A \<open>data_item\<close> is 16 bytes, the reading at
  offset 0, six bytes of padding that no operation writes, the timestamp at offset 8; the
  header is 4 bytes. The target is little-endian.
\<close>

section \<open>Data\<close>

record data_item =
  reading :: u16
  pad :: "u8 list"
  timestamp :: u64

record data_header =
  hdr_sensor :: u8
  hdr_valid :: u8
  hdr_length :: u16

datatype BUFF_STATUS = JUSTRIGHT | EMPTY | FULL

record circular_buffer =
  end_ptr :: nat
  data :: "data_item list"
  head :: nat
  tail :: nat
  sensor :: SENSOR

type_synonym sample = "u16 \<times> u64"

section \<open>Operations\<close>

definition new_circular_buffer :: "SENSOR \<Rightarrow> u16 \<Rightarrow> data_item list \<Rightarrow> circular_buffer" where
  "new_circular_buffer s num_items cells =
     \<lparr>end_ptr = unat num_items + 1, data = cells, head = 0, tail = 0, sensor = s\<rparr>"

definition next_ptr :: "circular_buffer \<Rightarrow> nat \<Rightarrow> nat" where
  "next_ptr cb p = (if p + 1 \<ge> end_ptr cb then 0 else p + 1)"

definition push_data_item ::
  "u16 \<Rightarrow> u64 \<Rightarrow> circular_buffer \<Rightarrow> ub + (BUFF_STATUS \<times> circular_buffer)" where
  "push_data_item r t cb =
     (let next = next_ptr cb (head cb) in
      if next = tail cb then Inr (FULL, cb)
      else if head cb < length (data cb) then
        Inr (JUSTRIGHT,
          cb\<lparr>data := (data cb)[head cb := (data cb ! head cb)\<lparr>reading := r, timestamp := t\<rparr>],
             head := next\<rparr>)
      else Inl OutOfBounds)"

text \<open>\<open>pop_data_item\<close> writes the item at offset \<open>off\<close> of the byte buffer \<open>buf\<close>.\<close>

definition pop_data_item ::
  "u8 list \<Rightarrow> nat \<Rightarrow> circular_buffer \<Rightarrow> ub + (BUFF_STATUS \<times> u8 list \<times> circular_buffer)" where
  "pop_data_item buf off cb =
     (if head cb = tail cb then Inr (EMPTY, buf, cb)
      else if tail cb < length (data cb) then
        (case poke off (le_bytes 2 (reading (data cb ! tail cb))) buf of
           None \<Rightarrow> Inl OutOfBounds
         | Some buf1 \<Rightarrow>
           (case poke (off + 8) (le_bytes 8 (timestamp (data cb ! tail cb))) buf1 of
              None \<Rightarrow> Inl OutOfBounds
            | Some buf2 \<Rightarrow> Inr (JUSTRIGHT, buf2, cb\<lparr>tail := next_ptr cb (tail cb)\<rparr>)))
      else Inl OutOfBounds)"

lemma unat_add_item: "unat bw + 16 \<le> unat sz \<Longrightarrow> unat (bw + 16) = unat bw + 16" for bw sz :: u16
  using unat_less(2) [of sz] by (simp add: unat_add_no_wrap)

text \<open>The comparison of the loop is made in \<open>size_t\<close>, so it does not wrap.\<close>

function get_data_loop ::
  "u16 \<Rightarrow> u16 \<Rightarrow> u8 list \<Rightarrow> circular_buffer \<Rightarrow> ub + (u16 \<times> u8 list \<times> circular_buffer)" where
  "get_data_loop sz bytes_written buf cb =
     (if unat bytes_written + 16 \<le> unat sz then
        (case pop_data_item buf (unat bytes_written) cb of
           Inl e \<Rightarrow> Inl e
         | Inr (EMPTY, buf', cb') \<Rightarrow> Inr (bytes_written, buf', cb')
         | Inr (_, buf', cb') \<Rightarrow> get_data_loop sz (bytes_written + 16) buf' cb')
      else Inr (bytes_written, buf, cb))"
  by pat_completeness auto
termination
  by (relation "measure (\<lambda>(sz, bw, buf, cb). unat sz - unat bw)")
    (auto simp: unat_add_item)

declare get_data_loop.simps [simp del]

definition header_bytes :: "data_header \<Rightarrow> u8 list" where
  "header_bytes h = [hdr_sensor h, hdr_valid h] @ le_bytes 2 (hdr_length h)"

definition get_data ::
  "u16 \<Rightarrow> u8 list \<Rightarrow> circular_buffer \<Rightarrow> ub + (u16 \<times> u8 list \<times> circular_buffer)" where
  "get_data sz buf cb =
     (case get_data_loop sz 4 buf cb of
        Inl e \<Rightarrow> Inl e
      | Inr (bytes_written, buf', cb') \<Rightarrow>
          (case poke 0 (header_bytes \<lparr>hdr_sensor = sensor_code (sensor cb'), hdr_valid = 0,
                          hdr_length = bytes_written\<rparr>) buf' of
             None \<Rightarrow> Inl OutOfBounds
           | Some buf'' \<Rightarrow> Inr (bytes_written, buf'', cb')))"

section \<open>Contents and well-formedness\<close>

definition used :: "circular_buffer \<Rightarrow> nat" where
  "used cb = (if tail cb \<le> head cb then head cb - tail cb else head cb + end_ptr cb - tail cb)"

definition slot :: "circular_buffer \<Rightarrow> nat \<Rightarrow> nat" where
  "slot cb i = (if tail cb + i < end_ptr cb then tail cb + i else tail cb + i - end_ptr cb)"

definition cell :: "data_item \<Rightarrow> sample" where
  "cell d = (reading d, timestamp d)"

definition items :: "circular_buffer \<Rightarrow> sample list" where
  "items cb = map (\<lambda>i. cell (data cb ! slot cb i)) [0..<used cb]"

definition capacity :: "circular_buffer \<Rightarrow> nat" where
  "capacity cb = end_ptr cb - 1"

text \<open>The pointers are inside the ring, and the occupied slots are inside the allocation.\<close>

definition ring_wf :: "circular_buffer \<Rightarrow> bool" where
  "ring_wf cb \<longleftrightarrow> head cb < end_ptr cb \<and> tail cb < end_ptr cb \<and>
     (\<forall>i < used cb. slot cb i < length (data cb))"

text \<open>The allocation covers every slot of the ring.\<close>

definition ring_safe :: "circular_buffer \<Rightarrow> bool" where
  "ring_safe cb \<longleftrightarrow> ring_wf cb \<and> end_ptr cb \<le> length (data cb)"

lemma length_items [simp, ring_simps]: "length (items cb) = used cb"
  by (simp add: items_def)

lemma used_less [ring_simps]: "ring_wf cb \<Longrightarrow> used cb < end_ptr cb"
  by (auto simp: ring_wf_def used_def)

lemma used_capacity [ring_simps]: "ring_wf cb \<Longrightarrow> used cb \<le> capacity cb"
  by (auto simp: capacity_def dest: used_less)

lemma next_eq_tail: "ring_wf cb \<Longrightarrow> next_ptr cb (head cb) = tail cb \<longleftrightarrow> used cb = capacity cb"
  by (auto simp: ring_wf_def used_def next_ptr_def capacity_def)

lemma head_eq_tail: "ring_wf cb \<Longrightarrow> head cb = tail cb \<longleftrightarrow> used cb = 0"
  by (auto simp: ring_wf_def used_def)

lemma slot_inj: "ring_wf cb \<Longrightarrow> i < used cb \<Longrightarrow> slot cb i \<noteq> head cb"
  by (auto simp: ring_wf_def used_def slot_def split: if_splits)

lemma slot_used: "ring_wf cb \<Longrightarrow> slot cb (used cb) = head cb"
  by (auto simp: ring_wf_def used_def slot_def)

lemma ring_wf_new [ring_simps]: "ring_wf (new_circular_buffer s n cells)"
  by (simp add: ring_wf_def new_circular_buffer_def used_def)

lemma items_new [ring_simps]: "items (new_circular_buffer s n cells) = []"
  by (simp add: items_def new_circular_buffer_def used_def)

lemma capacity_new [ring_simps]: "capacity (new_circular_buffer s n cells) = unat n"
  by (simp add: capacity_def new_circular_buffer_def)

lemma new_fields [ring_simps]:
  "sensor (new_circular_buffer s n cells) = s" "used (new_circular_buffer s n cells) = 0"
  "end_ptr (new_circular_buffer s n cells) = unat n + 1"
  "data (new_circular_buffer s n cells) = cells"
  "head (new_circular_buffer s n cells) = 0" "tail (new_circular_buffer s n cells) = 0"
  by (simp_all add: new_circular_buffer_def used_def)

section \<open>One push, one pop\<close>

definition pushed :: "u16 \<Rightarrow> u64 \<Rightarrow> circular_buffer \<Rightarrow> circular_buffer" where
  "pushed r t cb =
     cb\<lparr>data := (data cb)[head cb := (data cb ! head cb)\<lparr>reading := r, timestamp := t\<rparr>],
        head := next_ptr cb (head cb)\<rparr>"

definition popped :: "circular_buffer \<Rightarrow> circular_buffer" where
  "popped cb = cb\<lparr>tail := next_ptr cb (tail cb)\<rparr>"

lemma pushed_fields [simp]:
  "end_ptr (pushed r t cb) = end_ptr cb" "tail (pushed r t cb) = tail cb"
  "sensor (pushed r t cb) = sensor cb" "length (data (pushed r t cb)) = length (data cb)"
  "head (pushed r t cb) = next_ptr cb (head cb)" "capacity (pushed r t cb) = capacity cb"
  by (simp_all add: pushed_def capacity_def)

lemma popped_fields [simp]:
  "end_ptr (popped cb) = end_ptr cb" "head (popped cb) = head cb"
  "sensor (popped cb) = sensor cb" "data (popped cb) = data cb"
  "tail (popped cb) = next_ptr cb (tail cb)" "capacity (popped cb) = capacity cb"
  by (simp_all add: popped_def capacity_def)

lemma push_cases:
  "ring_wf cb \<Longrightarrow> push_data_item r t cb =
     (if used cb = capacity cb then Inr (FULL, cb)
      else if head cb < length (data cb) then Inr (JUSTRIGHT, pushed r t cb)
      else Inl OutOfBounds)"
  by (simp add: push_data_item_def pushed_def Let_def next_eq_tail)

lemma used_pushed: "ring_wf cb \<Longrightarrow> used cb < capacity cb \<Longrightarrow> used (pushed r t cb) = used cb + 1"
  by (auto simp: used_def next_ptr_def ring_wf_def capacity_def split: if_splits)

lemma slot_pushed [simp]: "slot (pushed r t cb) i = slot cb i"
  by (simp add: slot_def)

lemma ring_wf_pushed:
  assumes "ring_wf cb" and "used cb < capacity cb" and "head cb < length (data cb)"
  shows "ring_wf (pushed r t cb)"
proof -
  have "\<forall>i < used (pushed r t cb). slot (pushed r t cb) i < length (data (pushed r t cb))"
    using assms by (auto simp: used_pushed less_Suc_eq slot_used ring_wf_def)
  then show ?thesis
    using assms by (auto simp: ring_wf_def next_ptr_def)
qed

lemma items_pushed:
  assumes "ring_wf cb" and "used cb < capacity cb" and "head cb < length (data cb)"
  shows "items (pushed r t cb) = items cb @ [(r, t)]"
proof -
  have old: "data (pushed r t cb) ! slot cb i = data cb ! slot cb i" if "i < used cb" for i
    using slot_inj [OF assms(1) that] by (simp add: pushed_def)
  have new: "cell (data (pushed r t cb) ! head cb) = (r, t)"
    using assms(3) by (simp add: pushed_def cell_def)
  show ?thesis
    using assms old new
    by (simp add: items_def used_pushed slot_used)
qed

lemma used_popped: "ring_wf cb \<Longrightarrow> 0 < used cb \<Longrightarrow> used (popped cb) = used cb - 1"
  by (auto simp: used_def next_ptr_def ring_wf_def split: if_splits)

lemma slot_popped:
  "ring_wf cb \<Longrightarrow> i + 1 < used cb \<Longrightarrow> slot (popped cb) i = slot cb (Suc i)"
  by (auto simp: slot_def next_ptr_def ring_wf_def used_def split: if_splits)

lemma slot_0: "ring_wf cb \<Longrightarrow> slot cb 0 = tail cb"
  by (simp add: slot_def ring_wf_def)

lemma ring_wf_popped:
  assumes "ring_wf cb" and "0 < used cb"
  shows "ring_wf (popped cb)"
proof -
  have "slot (popped cb) i < length (data (popped cb))" if "i < used (popped cb)" for i
    using that assms slot_popped [OF assms(1), of i] by (simp add: used_popped ring_wf_def)
  moreover have "tail (popped cb) < end_ptr cb"
    using assms(1) by (simp add: next_ptr_def ring_wf_def)
  ultimately show ?thesis
    using assms(1) by (simp add: ring_wf_def)
qed

lemma items_popped:
  assumes "ring_wf cb" and "0 < used cb"
  shows "items cb = cell (data cb ! tail cb) # items (popped cb)"
proof -
  have "[0..<used cb] = 0 # map Suc [0..<used (popped cb)]"
    using assms by (simp add: used_popped map_Suc_upt upt_conv_Cons)
  then show ?thesis
    using assms slot_popped [OF assms(1)] by (simp add: items_def slot_0 used_popped)
qed

section \<open>Emptying the ring into a packet\<close>

text \<open>\<open>overlay xs old\<close> is the byte region \<open>old\<close> after the items \<open>xs\<close> were written over its
  beginning: each writes bytes 0-1 and 8-15 of its 16 and leaves the padding alone.\<close>

fun overlay :: "sample list \<Rightarrow> u8 list \<Rightarrow> u8 list" where
  "overlay [] old = old"
| "overlay ((r, t) # xs) old =
     le_bytes 2 r @ take 6 (drop 2 old) @ le_bytes 8 t @ overlay xs (drop 16 old)"

definition drained :: "nat \<Rightarrow> circular_buffer \<Rightarrow> circular_buffer" where
  "drained k cb = (popped ^^ k) cb"

lemma length_overlay [byte_simps]: "16 * length xs \<le> length old \<Longrightarrow> length (overlay xs old) = length old"
  by (induction xs old rule: overlay.induct) auto

lemma pop_cases:
  assumes "ring_wf cb" and "length pre = off" and "16 \<le> length old"
  shows "pop_data_item (pre @ old) off cb =
     (if used cb = 0 then Inr (EMPTY, pre @ old, cb)
      else Inr (JUSTRIGHT,
        (pre @ le_bytes 2 (reading (data cb ! tail cb)) @ take 6 (drop 2 old) @
          le_bytes 8 (timestamp (data cb ! tail cb))) @ drop 16 old, popped cb))"
proof (cases "used cb = 0")
  case True
  then show ?thesis using assms head_eq_tail by (simp add: pop_data_item_def)
next
  case False
  let ?r = "le_bytes 2 (reading (data cb ! tail cb))"
  let ?t = "le_bytes 8 (timestamp (data cb ! tail cb))"
  have room: "tail cb < length (data cb)"
    using assms(1) False slot_0 by (force simp: ring_wf_def)
  have p1: "poke off ?r (pre @ old) = Some (pre @ ?r @ drop 2 old)"
    using assms by (simp add: poke_append)
  have "pre @ ?r @ drop 2 old = (pre @ ?r @ take 6 (drop 2 old)) @ drop 8 old"
    using append_take_drop_id [of 6 "drop 2 old"] by simp
  moreover have "poke (off + 8) ?t ((pre @ ?r @ take 6 (drop 2 old)) @ drop 8 old) =
      Some ((pre @ ?r @ take 6 (drop 2 old)) @ ?t @ drop 8 (drop 8 old))"
    using assms by (subst poke_append) auto
  ultimately have p2: "poke (off + 8) ?t (pre @ ?r @ drop 2 old) =
      Some ((pre @ ?r @ take 6 (drop 2 old) @ ?t) @ drop 16 old)"
    by simp
  show ?thesis
    using False head_eq_tail [OF assms(1)] room p1 p2
    by (simp add: pop_data_item_def popped_def)
qed

lemma get_data_loop_eq:
  assumes "ring_wf cb" and "length pre = unat bw" and "unat sz \<le> length (pre @ old)"
    and "unat bw \<le> unat sz" and "k = min (used cb) ((unat sz - unat bw) div 16)"
  shows "get_data_loop sz bw (pre @ old) cb =
     Inr (bw + of_nat (16 * k), pre @ overlay (take k (items cb)) old, drained k cb)"
  using assms
proof (induction k arbitrary: bw pre old cb)
  case 0
  show ?case
  proof (cases "unat bw + 16 \<le> unat sz")
    case True
    then have "used cb = 0" using 0 by (auto simp: min_def split: if_splits)
    then show ?thesis
      using 0 True by (subst get_data_loop.simps) (simp add: pop_cases drained_def)
  next
    case False
    then show ?thesis by (subst get_data_loop.simps) (simp add: drained_def)
  qed
next
  case (Suc k)
  let ?d = "data cb ! tail cb"
  let ?pre = "pre @ le_bytes 2 (reading ?d) @ take 6 (drop 2 old) @ le_bytes 8 (timestamp ?d)"
  have k: "Suc k \<le> used cb" "Suc k \<le> (unat sz - unat bw) div 16"
    using Suc.prems(5) by simp_all
  have room: "unat bw + 16 \<le> unat sz" using k(2) by simp
  have bw: "unat (bw + 16) = unat bw + 16" by (rule unat_add_item [OF room])
  have pos: "0 < used cb" and old: "16 \<le> length old" using k room Suc.prems by simp_all
  have rest: "(unat sz - unat (bw + 16)) div 16 = (unat sz - unat bw) div 16 - 1"
    using room bw le_div_geq [of 16 "unat sz - unat bw"] by simp
  have "get_data_loop sz (bw + 16) (?pre @ drop 16 old) (popped cb) =
      Inr (bw + 16 + of_nat (16 * k), ?pre @ overlay (take k (items (popped cb))) (drop 16 old),
        drained k (popped cb))"
  proof (rule Suc.IH)
    show "k = min (used (popped cb)) ((unat sz - unat (bw + 16)) div 16)"
      using Suc.prems(1,5) pos rest used_popped [OF Suc.prems(1) pos] by linarith
  qed (use Suc.prems room bw old pos ring_wf_popped in auto)
  moreover have "get_data_loop sz bw (pre @ old) cb =
      get_data_loop sz (bw + 16) (?pre @ drop 16 old) (popped cb)"
    using Suc.prems room old pos by (subst get_data_loop.simps) (simp add: pop_cases)
  ultimately show ?case
    using items_popped [OF Suc.prems(1) pos]
    by (simp add: cell_def drained_def funpow_swap1)
qed

lemma drained_facts:
  "ring_wf cb \<Longrightarrow> k \<le> used cb \<Longrightarrow>
     ring_wf (drained k cb) \<and> items (drained k cb) = drop k (items cb) \<and>
     used (drained k cb) = used cb - k"
proof (induction k)
  case 0
  then show ?case by (simp add: drained_def)
next
  case (Suc k)
  then have IH: "ring_wf (drained k cb)" "items (drained k cb) = drop k (items cb)"
    "used (drained k cb) = used cb - k" by simp_all
  then have pos: "0 < used (drained k cb)" using Suc.prems by simp
  have "drop (Suc k) (items cb) = tl (drop k (items cb))" by (simp add: drop_Suc tl_drop)
  then show ?case
    using IH ring_wf_popped [OF IH(1) pos] items_popped [OF IH(1) pos] used_popped [OF IH(1) pos]
    by (simp add: drained_def)
qed

lemma drained_fields [simp]:
  "end_ptr (drained k cb) = end_ptr cb" "head (drained k cb) = head cb"
  "sensor (drained k cb) = sensor cb" "data (drained k cb) = data cb"
  "capacity (drained k cb) = capacity cb"
  by (induction k) (simp_all add: drained_def)

text \<open>The packet \<open>get_data\<close> leaves in its byte buffer.\<close>

definition packet :: "SENSOR \<Rightarrow> sample list \<Rightarrow> u8 list \<Rightarrow> u8 list" where
  "packet s xs old =
     header_bytes \<lparr>hdr_sensor = sensor_code s, hdr_valid = 0,
       hdr_length = of_nat (4 + 16 * length xs)\<rparr> @ overlay xs (drop 4 old)"

lemma length_header_bytes [simp]: "length (header_bytes h) = 4"
  by (simp add: header_bytes_def)

lemma get_data_eq:
  assumes "ring_wf cb" and "4 \<le> unat sz" and "unat sz \<le> length buf"
    and "k = min (used cb) ((unat sz - 4) div 16)"
  shows "get_data sz buf cb =
     Inr (of_nat (4 + 16 * k), packet (sensor cb) (take k (items cb)) buf, drained k cb)"
proof -
  let ?bw = "of_nat (4 + 16 * k) :: u16"
  have "get_data_loop sz 4 (take 4 buf @ drop 4 buf) cb =
      Inr (?bw, take 4 buf @ overlay (take k (items cb)) (drop 4 buf), drained k cb)"
    using get_data_loop_eq [of cb "take 4 buf" 4 sz "drop 4 buf" k] assms by simp
  then have "get_data_loop sz 4 buf cb =
      Inr (?bw, take 4 buf @ overlay (take k (items cb)) (drop 4 buf), drained k cb)"
    by simp
  moreover have "poke 0 (header_bytes h) (take 4 buf @ ys) = Some (header_bytes h @ ys)" for h ys
    using assms by (simp add: poke_def)
  ultimately show ?thesis
    using assms by (simp add: get_data_def packet_def)
qed

end
