(* ===== verification/Resfet_Packet.thy ===== *)
theory Resfet_Packet
  imports Resfet_Ring
begin

text \<open>
  What the circular buffer promises: the interface of a bounded queue with its
  interpretation on the buffer's operations, the layout of the packets, their decoding
  by scripts/struct_decoder.py, and the allocation that is one cell too small.
\<close>

section \<open>The interface of a bounded queue\<close>

text \<open>Pushing a list of values, with the status of each push.\<close>

fun push_all :: "('i \<Rightarrow> 'q \<Rightarrow> 'e + (BUFF_STATUS \<times> 'q)) \<Rightarrow> 'i list \<Rightarrow> 'q \<Rightarrow> 'e + (BUFF_STATUS list \<times> 'q)" where
  "push_all push [] q = Inr ([], q)"
| "push_all push (x # xs) q =
     (case push x q of
        Inl e \<Rightarrow> Inl e
      | Inr (st, q') \<Rightarrow>
          (case push_all push xs q' of Inl e \<Rightarrow> Inl e | Inr (sts, q'') \<Rightarrow> Inr (st # sts, q'')))"

locale bounded_queue =
  fixes push :: "'i \<Rightarrow> 'q \<Rightarrow> 'e + (BUFF_STATUS \<times> 'q)"
    and contents :: "'q \<Rightarrow> 'i list"
    and cap :: "'q \<Rightarrow> nat"
    and inv :: "'q \<Rightarrow> bool"
  assumes bound: "inv q \<Longrightarrow> length (contents q) \<le> cap q"
    and push_full: "inv q \<Longrightarrow> length (contents q) = cap q \<Longrightarrow> push x q = Inr (FULL, q)"
    and push_room: "inv q \<Longrightarrow> length (contents q) < cap q \<Longrightarrow>
      \<exists>q'. push x q = Inr (JUSTRIGHT, q') \<and> inv q' \<and> contents q' = contents q @ [x] \<and> cap q' = cap q"
begin

lemma push_all_contents:
  "inv q \<Longrightarrow> \<exists>sts q'. push_all push xs q = Inr (sts, q') \<and> inv q' \<and> cap q' = cap q \<and>
     contents q' = contents q @ take (cap q - length (contents q)) xs \<and>
     sts = map (\<lambda>i. if length (contents q) + i < cap q then JUSTRIGHT else FULL) [0..<length xs]"
proof (induction xs arbitrary: q)
  case Nil
  then show ?case by simp
next
  case (Cons x xs)
  show ?case
  proof (cases "length (contents q) = cap q")
    case True
    then show ?thesis
      using Cons.IH [OF Cons.prems] push_full [OF Cons.prems True, of x]
      by (force simp: upt_conv_Cons map_Suc_upt [symmetric] simp del: upt_Suc)
  next
    case False
    then have lt: "length (contents q) < cap q" using bound [OF Cons.prems] by simp
    then obtain q1 where q1: "push x q = Inr (JUSTRIGHT, q1)" "inv q1"
      "contents q1 = contents q @ [x]" "cap q1 = cap q"
      using push_room [OF Cons.prems] by blast
    have take: "take (cap q - length (contents q)) (x # xs) =
        x # take (cap q - Suc (length (contents q))) xs"
      using Suc_diff_Suc [OF lt, symmetric] by simp
    show ?thesis
      using Cons.IH [OF q1(2)] q1 lt take
      by (force simp: upt_conv_Cons map_Suc_upt [symmetric] simp del: upt_Suc)
  qed
qed

lemma push_all_room:
  assumes "inv q" and "length (contents q) + length xs \<le> cap q"
  shows "\<exists>q'. push_all push xs q = Inr (replicate (length xs) JUSTRIGHT, q') \<and> inv q' \<and>
     cap q' = cap q \<and> contents q' = contents q @ xs"
proof -
  have "map (\<lambda>i. if length (contents q) + i < cap q then JUSTRIGHT else FULL) [0..<length xs] =
      replicate (length xs) JUSTRIGHT"
    using assms(2) by (intro replicate_eqI) auto
  then show ?thesis using push_all_contents [OF assms(1), of xs] assms(2) by auto
qed

end

definition push_sample :: "sample \<Rightarrow> circular_buffer \<Rightarrow> ub + (BUFF_STATUS \<times> circular_buffer)" where
  "push_sample x cb = push_data_item (fst x) (snd x) cb"

lemma ring_safe_head: "ring_safe cb \<Longrightarrow> head cb < length (data cb)"
  by (auto simp: ring_safe_def ring_wf_def)

lemma ring_safe_push:
  assumes "ring_safe cb" and "used cb < capacity cb"
  shows "push_data_item r t cb = Inr (JUSTRIGHT, pushed r t cb)" "ring_safe (pushed r t cb)"
    "items (pushed r t cb) = items cb @ [(r, t)]"
  using assms ring_safe_head [OF assms(1)]
  by (simp_all add: ring_safe_def push_cases ring_wf_pushed items_pushed)

interpretation ring: bounded_queue push_sample items capacity ring_safe
proof unfold_locales
  fix q :: circular_buffer and x :: sample
  assume safe: "ring_safe q"
  then have wf: "ring_wf q" by (simp add: ring_safe_def)
  show "length (items q) \<le> capacity q" using wf by (simp add: used_capacity)
  show "push_sample x q = Inr (FULL, q)" if "length (items q) = capacity q"
    using wf that by (simp add: push_sample_def push_cases)
  show "\<exists>q'. push_sample x q = Inr (JUSTRIGHT, q') \<and> ring_safe q' \<and> items q' = items q @ [x] \<and>
      capacity q' = capacity q" if "length (items q) < capacity q"
    using ring_safe_push [OF safe, of "fst x" "snd x"] that by (auto simp: push_sample_def)
qed

lemma ring_safe_drained: "ring_safe cb \<Longrightarrow> k \<le> used cb \<Longrightarrow> ring_safe (drained k cb)"
  using drained_facts by (simp add: ring_safe_def)

section \<open>Decoding: scripts/struct_decoder.py\<close>

text \<open>\<open>struct.unpack("h6xQ", ...)\<close> on 16 bytes, for the 16 items of each 260-byte line.\<close>

definition decode_item :: "u8 list \<Rightarrow> int \<times> nat" where
  "decode_item bs = (sint (of_le (take 2 bs) :: u16), unat (of_le (take 8 (drop 8 bs)) :: u64))"

definition decode_line :: "u8 list \<Rightarrow> (int \<times> nat) list" where
  "decode_line line = map (\<lambda>i. decode_item (take 16 (drop (16 * i) (drop 4 line)))) [0..<16]"

definition decode_log :: "u8 list \<Rightarrow> (int \<times> nat) list" where
  "decode_log file = concat (map (\<lambda>j. decode_line (take 260 (drop (260 * j) file))) [0..<length file div 260])"

lemma decode_item_overlay:
  "16 \<le> length old \<Longrightarrow> decode_item (take 16 (overlay ((r, t) # xs) old)) = (sint r, unat t)"
  by (simp add: decode_item_def)

lemma drop_overlay: "16 \<le> length old \<Longrightarrow> drop 16 (overlay (x # xs) old) = overlay xs (drop 16 old)"
  by (cases x) simp

lemma decode_overlay:
  "16 * length xs \<le> length old \<Longrightarrow>
   map (\<lambda>i. decode_item (take 16 (drop (16 * i) (overlay xs old)))) [0..<length xs] =
   map (\<lambda>(r, t). (sint r, unat t)) xs"
proof (induction xs arbitrary: old)
  case (Cons x xs)
  have "drop (16 * Suc i) (overlay (x # xs) old) = drop (16 * i) (overlay xs (drop 16 old))" for i
  proof -
    have "drop (16 * Suc i) (overlay (x # xs) old) = drop (16 * i) (drop 16 (overlay (x # xs) old))"
      by (simp add: add.commute)
    also have "drop 16 (overlay (x # xs) old) = overlay xs (drop 16 old)"
      using Cons.prems by (simp add: drop_overlay)
    finally show ?thesis .
  qed
  moreover have "[0..<length (x # xs)] = 0 # map Suc [0..<length xs]"
    by (simp add: map_Suc_upt upt_conv_Cons del: upt_Suc)
  moreover have "decode_item (take 16 (overlay (x # xs) old)) = (case x of (r, t) \<Rightarrow> (sint r, unat t))"
    using Cons.prems decode_item_overlay [of old] by (cases x) simp
  ultimately show ?case
    using Cons.IH [of "drop 16 old"] Cons.prems by (simp add: comp_def)
qed simp

lemma length_packet: "4 + 16 * length xs \<le> length old \<Longrightarrow> length (packet s xs old) = length old"
  by (simp add: packet_def length_overlay)

lemma decode_packet:
  assumes "length xs = 16" and "length old = 260"
  shows "decode_line (packet s xs old) = map (\<lambda>(r, t). (sint r, unat t)) xs"
  using decode_overlay [of xs "drop 4 old"] assms by (simp add: decode_line_def packet_def)

lemma decode_log_append:
  assumes "length line = 260"
  shows "decode_log (line @ file) = decode_line line @ decode_log file"
proof -
  have "length (line @ file) div 260 = Suc (length file div 260)"
    using assms div_add_self1 [of 260 "length file"] by simp
  then have "[0..<length (line @ file) div 260] = 0 # map Suc [0..<length file div 260]"
    by (simp add: map_Suc_upt upt_conv_Cons del: upt_Suc)
  moreover have "drop (260 * Suc j) (line @ file) = drop (260 * j) file" for j
    using assms by simp
  ultimately show ?thesis
    using assms by (simp add: decode_log_def comp_def)
qed

lemma decode_log_packets:
  "\<forall>p \<in> set ps. length (fst (snd p)) = 16 \<and> length (snd (snd p)) = 260 \<Longrightarrow>
   decode_log (concat (map (\<lambda>(s, xs, old). packet s xs old) ps)) =
   map (\<lambda>(r, t). (sint r, unat t)) (concat (map (\<lambda>(s, xs, old). xs) ps))"
proof (induction ps)
  case Nil
  then show ?case by (simp add: decode_log_def)
next
  case (Cons p ps)
  obtain s xs old where p: "p = (s, xs, old)" by (cases p) auto
  then have "length (packet s xs old) = 260"
    using Cons.prems length_packet [of xs old s] by simp
  then show ?case
    using Cons p by (simp add: decode_log_append decode_packet)
qed

lemma sint_small: "unat (r :: u16) < 32768 \<Longrightarrow> sint r = int (unat r)"
proof -
  assume "unat r < 32768"
  then have "int (unat r) < 32768" by linarith
  then have "uint r < 32768" by simp
  moreover have "0 \<le> uint r" by simp
  ultimately have "signed_take_bit 15 (uint r) = uint r"
    by (intro signed_take_bit_int_eq_self) (auto intro: order_trans [of _ 0])
  then show ?thesis by (simp add: sint_uint)
qed

section \<open>Properties\<close>

definition blank_item :: data_item where
  "blank_item = \<lparr>reading = 0, pad = replicate 6 0, timestamp = 0\<rparr>"


lemma ring_safe_new: "unat n < length cells \<Longrightarrow> ring_safe (new_circular_buffer s n cells)"
  by (simp add: ring_safe_def ring_wf_new) (simp add: new_circular_buffer_def)


text \<open>C12: \<open>get_data\<close> takes the oldest items, as many as are queued and fit, writes them behind
  a header that names the sensor and the bytes used, and leaves the rest queued; it never
  reads or writes out of bounds.\<close>

theorem get_data_takes_oldest:
  assumes "ring_wf cb" and "4 \<le> unat sz" and "unat sz \<le> length buf"
  defines "k \<equiv> min (length (items cb)) ((unat sz - 4) div 16)"
  shows "\<exists>cb'. get_data sz buf cb =
       Inr (of_nat (4 + 16 * k), packet (sensor cb) (take k (items cb)) buf, cb') \<and>
     ring_wf cb' \<and> items cb' = drop k (items cb) \<and> capacity cb' = capacity cb"
  using get_data_eq [OF assms(1-3), of k] drained_facts [OF assms(1), of k]
  by (simp add: k_def)

theorem get_data_takes_oldest_witness:
  "\<exists>cb'. get_data 260 (replicate 260 0) (new_circular_buffer LC2 16 (replicate 17 blank_item)) =
     Inr (4, packet LC2 [] (replicate 260 0), cb')"
  using get_data_takes_oldest [of "new_circular_buffer LC2 16 (replicate 17 blank_item)" 260 "replicate 260 0"]
  by (auto simp: ring_simps)

text \<open>A log of full 260-byte packets, decoded by struct_decoder.py, gives the samples in
  order, each reading as itself when it is below \<open>2 ^ 15\<close> (as every 14-bit ADC reading is)
  and each timestamp as itself.\<close>

lemma decode_log_full:
  assumes "\<forall>p \<in> set ps. length (fst (snd p)) = 16 \<and> length (snd (snd p)) = 260"
    and "\<forall>p \<in> set ps. \<forall>x \<in> set (fst (snd p)). unat (fst x) < 32768"
  shows "decode_log (concat (map (\<lambda>(s, xs, old). packet s xs old) ps)) =
     map (\<lambda>(r, t). (int (unat r), unat t)) (concat (map (\<lambda>(s, xs, old). xs) ps))"
proof -
  have "\<forall>x \<in> set (concat (map (\<lambda>(s, xs, old). xs) ps)). sint (fst x) = int (unat (fst x))"
    using assms(2) sint_small by fastforce
  then show ?thesis
    using decode_log_packets [OF assms(1)] by (auto simp: split_beta intro!: map_cong)
qed

lemma decode_log_full_witness:
  "decode_log (packet PT1 (replicate 16 (700, 5)) (replicate 260 0)) = replicate 16 (700, 5)"
  using decode_log_full [of "[(PT1, replicate 16 (700, 5), replicate 260 0)]"]
  by (simp add: map_replicate)

lemma overlay_padding:
  "i < length xs \<Longrightarrow> 16 * length xs \<le> length old \<Longrightarrow> 2 \<le> j \<Longrightarrow> j < 8 \<Longrightarrow>
   overlay xs old ! (16 * i + j) = old ! (16 * i + j)"
proof (induction xs old arbitrary: i rule: overlay.induct)
  case (2 r t xs old)
  show ?case
  proof (cases i)
    case 0
    then have "overlay ((r, t) # xs) old ! j = take 6 (drop 2 old) ! (j - 2)"
      using "2.prems" by (simp add: nth_append) linarith
    moreover have "Suc (Suc (j - 2)) = j" using "2.prems" by simp
    ultimately show ?thesis using 0 "2.prems" by simp
  next
    case (Suc k)
    have "overlay ((r, t) # xs) old ! (16 + (16 * k + j)) = overlay xs (drop 16 old) ! (16 * k + j)"
      using "2.prems" by (simp add: nth_append)
    then show ?thesis using "2.IH" [of k] "2.prems" Suc by (simp add: add.assoc)
  qed
qed simp

text \<open>The six padding bytes of every item of a packet are those the byte buffer held
  before: memory that no operation initialised is logged and sent.\<close>

lemma packet_padding_is_stale:
  assumes "i < length xs" and "4 + 16 * length xs \<le> length old" and "2 \<le> j" and "j < 8"
  shows "packet s xs old ! (4 + 16 * i + j) = old ! (4 + 16 * i + j)"
  using overlay_padding [OF assms(1) _ assms(3,4), of "drop 4 old"] assms(2)
  by (simp add: packet_def nth_append add.assoc)

lemma packet_padding_is_stale_witness:
  "packet TC1 [(1, 2)] (replicate 260 170) ! 6 = 170"
  using packet_padding_is_stale [of 0 "[(1, 2)]" "replicate 260 170" 2 TC1] by simp

text \<open>A push writes outside the allocation exactly when the queue has room and the head
  pointer is past the allocated cells.\<close>

lemma push_overflow_iff:
  "ring_wf cb \<Longrightarrow> push_data_item r t cb = Inl OutOfBounds \<longleftrightarrow>
     used cb < capacity cb \<and> length (data cb) \<le> head cb"
  using used_capacity [of cb] by (auto simp: push_cases)

lemma head_push_all:
  "ring_wf cb \<Longrightarrow> tail cb = 0 \<Longrightarrow> head cb + length xs < end_ptr cb \<Longrightarrow>
   head cb + length xs \<le> length (data cb) \<Longrightarrow>
   \<exists>cb'. push_all push_sample xs cb = Inr (replicate (length xs) JUSTRIGHT, cb') \<and> ring_wf cb' \<and>
     head cb' = head cb + length xs \<and> tail cb' = 0 \<and> end_ptr cb' = end_ptr cb \<and>
     length (data cb') = length (data cb) \<and> items cb' = items cb @ xs \<and> sensor cb' = sensor cb"
proof (induction xs arbitrary: cb)
  case (Cons x xs)
  let ?p = "pushed (fst x) (snd x) cb"
  have room: "used cb < capacity cb" "head cb < length (data cb)"
    using Cons.prems by (auto simp: used_def capacity_def)
  then have step: "push_sample x cb = Inr (JUSTRIGHT, ?p)"
    using Cons.prems(1) by (simp add: push_sample_def push_cases)
  have "head ?p = Suc (head cb)" using Cons.prems by (simp add: next_ptr_def)
  then show ?case
    using Cons.IH [of ?p] Cons.prems room step ring_wf_pushed [OF Cons.prems(1) room]
      items_pushed [OF Cons.prems(1) room] by force
qed simp

text \<open>The buffer the constructor builds on an allocation of \<open>num_items\<close> cells works for its
  first lap, and the first push after the first full packet writes one cell past the
  allocation.\<close>

lemma constructor_allocates_one_cell_short:
  assumes "length cells = unat n" and "0 < n" and "length xs = unat n"
    and "4 + 16 * unat n \<le> unat sz" and "unat sz \<le> length buf"
  shows "\<exists>cb1 cb2. push_all push_sample xs (new_circular_buffer s n cells) =
       Inr (replicate (unat n) JUSTRIGHT, cb1) \<and>
     get_data sz buf cb1 = Inr (of_nat (4 + 16 * unat n), packet s xs buf, cb2) \<and>
     push_data_item r t cb2 = Inl OutOfBounds"
proof -
  let ?cb = "new_circular_buffer s n cells"
  obtain cb1 where p: "push_all push_sample xs ?cb = Inr (replicate (unat n) JUSTRIGHT, cb1)"
    and cb1: "ring_wf cb1" "head cb1 = unat n" "end_ptr cb1 = unat n + 1"
      "length (data cb1) = unat n" "items cb1 = xs" "sensor cb1 = s"
    using head_push_all [of ?cb xs] assms(1,3) ring_wf_new [of s n cells] items_new [of s n cells]
    by (auto simp: new_circular_buffer_def)
  have used: "used cb1 = unat n" using length_items [of cb1] cb1(5) assms(3) by simp
  then have k: "unat n = min (used cb1) ((unat sz - 4) div 16)"
    using assms(4) by simp
  have "get_data sz buf cb1 =
      Inr (of_nat (4 + 16 * unat n), packet s (take (unat n) xs) buf, drained (unat n) cb1)"
    using get_data_eq [OF cb1(1) _ assms(5) k] assms(4) cb1(5,6) by simp
  moreover have "push_data_item r t (drained (unat n) cb1) = Inl OutOfBounds"
  proof -
    have "ring_wf (drained (unat n) cb1)" "used (drained (unat n) cb1) = 0"
      using drained_facts [OF cb1(1), of "unat n"] used by auto
    then show ?thesis
      using cb1 assms(2) by (subst push_overflow_iff) (auto simp: capacity_def unat_gt_0)
  qed
  ultimately show ?thesis using p assms(3) by auto
qed

lemma constructor_allocates_one_cell_short_witness:
  "\<exists>cb1 cb2. push_all push_sample (replicate 16 (1, 2)) (new_circular_buffer PT1 16 (replicate 16 blank_item)) =
       Inr (replicate 16 JUSTRIGHT, cb1) \<and>
     get_data 260 (replicate 260 0) cb1 = Inr (260, packet PT1 (replicate 16 (1, 2)) (replicate 260 0), cb2) \<and>
     push_data_item 3 4 cb2 = Inl OutOfBounds"
  using constructor_allocates_one_cell_short [of "replicate 16 blank_item" 16 "replicate 16 (1, 2)" 260
      "replicate 260 0" PT1 3 4] by simp

end
