(* ===== verification/Resfet_Sampling.thy ===== *)
theory Resfet_Sampling
  imports Resfet_Packet Complex_Main
begin

text \<open>
  The sensor threads (include/thread/thread.hpp, src/thread/thread.cpp): the
  PeriodicThread constructor and one round of \<open>threadFunc\<close> after its sleep.

  Doubles are reals with a parameter \<open>rnd\<close> that rounds the result of each operation and
  each literal. The clock (\<open>get_elapsed_time_us\<close>) is a function of the hardware calls so
  far, like the answers of the ADC. \<open>logs\<close> holds the bytes handed to \<open>Logger::data\<close> per
  sensor, \<open>sent\<close> the packets handed to \<open>sendBuf\<close>: every exception of it is caught, so its
  outcome does not matter here. The socket is \<open>None\<close> for a null pointer, or its
  descriptor.
\<close>

section \<open>The thread object\<close>

record PeriodicThread =
  reader :: adc_reader
  buffers :: "circular_buffer list"
  sleep_time_ns :: u64
  num_sensors :: nat
  pressureMax :: real
  pressureMin :: real
  pressureSlope :: real
  pressureYint :: real
  sock :: "int option"

definition BUFF_SIZE :: u16 where "BUFF_SIZE = 260"

definition sleep_time :: "(real \<Rightarrow> real) \<Rightarrow> u16 \<Rightarrow> u64" where
  "sleep_time rnd frequency_hz =
     word_of_int \<lfloor>rnd (rnd (1 / of_nat (unat frequency_hz)) * 1000000000)\<rfloor>"

text \<open>\<open>mem s\<close> is the memory \<open>new data_item[16]\<close> returns for the sensor \<open>s\<close>.\<close>

definition new_PeriodicThread ::
  "(real \<Rightarrow> real) \<Rightarrow> (SENSOR \<Rightarrow> data_item list) \<Rightarrow> u16 \<Rightarrow> SENSOR list \<Rightarrow> real \<Rightarrow> real \<Rightarrow> real \<Rightarrow> real \<Rightarrow>
   int option \<Rightarrow> ub + PeriodicThread" where
  "new_PeriodicThread rnd mem frequency_hz sensors pmax pmin slope yint so =
     (case register_sensors sensors new_adc_reader of
        Inl e \<Rightarrow> Inl e
      | Inr rd \<Rightarrow> Inr \<lparr>reader = rd, buffers = map (\<lambda>s. new_circular_buffer s 16 (mem s)) sensors,
          sleep_time_ns = sleep_time rnd frequency_hz, num_sensors = length sensors,
          pressureMax = pmax, pressureMin = pmin, pressureSlope = slope, pressureYint = yint,
          sock = so\<rparr>)"

section \<open>Pressure shutoff\<close>

definition comb_update :: "(real \<Rightarrow> real) \<Rightarrow> PeriodicThread \<Rightarrow> u16 \<Rightarrow> real \<Rightarrow> real" where
  "comb_update rnd th r avg =
     (let converted = rnd (rnd (pressureSlope th * of_nat (unat r)) + pressureYint th)
      in rnd (rnd (avg * rnd (95 / 100)) + rnd (converted * rnd (5 / 100))))"

definition out_of_range :: "PeriodicThread \<Rightarrow> real \<Rightarrow> bool" where
  "out_of_range th avg \<longleftrightarrow> avg > pressureMax th \<or> avg < pressureMin th"

section \<open>Buffering one sample\<close>

text \<open>Push a sample; when the ring is full, move its contents into the packet buffer instead:
  the sample that found the ring full is not pushed again.\<close>

definition offer ::
  "sample \<Rightarrow> circular_buffer \<Rightarrow> u8 list \<Rightarrow> ub + (u8 list option \<times> circular_buffer \<times> u8 list)" where
  "offer x cb b =
     (case push_data_item (fst x) (snd x) cb of
        Inl e \<Rightarrow> Inl e
      | Inr (FULL, cb') \<Rightarrow>
          (case get_data BUFF_SIZE b cb' of
             Inl e \<Rightarrow> Inl e
           | Inr (_, b', cb'') \<Rightarrow> Inr (Some b', cb'', b'))
      | Inr (_, cb') \<Rightarrow> Inr (None, cb', b))"

section \<open>One round of the loop\<close>

record sampler =
  combAvg :: real
  rings :: "circular_buffer list"
  packet_buf :: "u8 list"
  logs :: "u8 list list"
  sent :: "u8 list list"

record platform =
  plain_char_signed :: bool
  spi_answer :: "hw_call list \<Rightarrow> u8 list \<Rightarrow> u8 \<times> u8 \<times> u8"
  clock_us :: "hw_call list \<Rightarrow> u64"
  rounding :: "real \<Rightarrow> real"

datatype thread_error = Adc_failed adc_error | Memory ub

text \<open>The body of the loop over the buffers, for the buffer at index \<open>i\<close>: \<open>True\<close> when the
  thread returns.\<close>

definition sample_ring ::
  "platform \<Rightarrow> PeriodicThread \<Rightarrow> nat \<Rightarrow> sampler \<times> world \<Rightarrow> thread_error + (bool \<times> sampler \<times> world)" where
  "sample_ring pf th i sw =
    (let s = fst sw; w = snd sw; cb = rings s ! i in
     case read_item (plain_char_signed pf) (spi_answer pf) (reader th) (sensor_code (sensor cb)) w of
       Inl e \<Rightarrow> Inl (Adc_failed e)
     | Inr (r, w1) \<Rightarrow>
        (let avg = (if sensor cb = PT1 then comb_update (rounding pf) th r (combAvg s) else combAvg s);
             w2 = (if sensor cb = PT1 then w1\<lparr>pressureShutoff := out_of_range th avg\<rparr> else w1)
         in case offer (r, clock_us pf (calls w2)) cb (packet_buf s) of
              Inl e \<Rightarrow> Inl (Memory e)
            | Inr (None, cb', b') \<Rightarrow> Inr (False, s\<lparr>combAvg := avg, rings := (rings s)[i := cb']\<rparr>, w2)
            | Inr (Some p, cb', b') \<Rightarrow>
               (let s1 = s\<lparr>combAvg := avg, rings := (rings s)[i := cb'], packet_buf := b',
                            logs := (logs s)[i := logs s ! i @ p]\<rparr>
                in case sock th of
                     None \<Rightarrow> Inr (True, s1, w2)
                   | Some fd \<Rightarrow>
                       if fd \<noteq> - 1 then Inr (False, s1\<lparr>sent := sent s @ [p]\<rparr>, w2)
                       else Inr (True, s1, w2))))"

fun sample_rings ::
  "platform \<Rightarrow> PeriodicThread \<Rightarrow> nat list \<Rightarrow> sampler \<times> world \<Rightarrow> thread_error + (bool \<times> sampler \<times> world)" where
  "sample_rings pf th [] sw = Inr (False, sw)"
| "sample_rings pf th (i # is) sw =
     (case sample_ring pf th i sw of
        Inl e \<Rightarrow> Inl e
      | Inr (True, sw') \<Rightarrow> Inr (True, sw')
      | Inr (False, sw') \<Rightarrow> sample_rings pf th is sw')"

definition sample_round ::
  "platform \<Rightarrow> PeriodicThread \<Rightarrow> sampler \<times> world \<Rightarrow> thread_error + (bool \<times> sampler \<times> world)" where
  "sample_round pf th sw = sample_rings pf th [0..<length (rings (fst sw))] sw"

fun sample_rounds ::
  "platform \<Rightarrow> PeriodicThread \<Rightarrow> nat \<Rightarrow> sampler \<times> world \<Rightarrow> thread_error + (bool \<times> sampler \<times> world)" where
  "sample_rounds pf th 0 sw = Inr (False, sw)"
| "sample_rounds pf th (Suc n) sw =
     (case sample_round pf th sw of
        Inl e \<Rightarrow> Inl e
      | Inr (True, sw') \<Rightarrow> Inr (True, sw')
      | Inr (False, sw') \<Rightarrow> sample_rounds pf th n sw')"

text \<open>The locals of the thread when it starts; \<open>mem\<close> is the memory of \<open>new uint8_t[BUFF_SIZE]\<close>.\<close>

definition thread_start :: "PeriodicThread \<Rightarrow> u8 list \<Rightarrow> sampler" where
  "thread_start th mem =
     \<lparr>combAvg = 700, rings = buffers th, packet_buf = mem,
      logs = replicate (length (buffers th)) [], sent = []\<rparr>"

section \<open>The sleep\<close>

text \<open>The loop around \<open>nanosleep\<close> before each round: \<open>ns\<close> is \<open>spec.tv_nsec\<close> and \<open>rem\<close> what the kernel
  last stored in \<open>rem.tv_nsec\<close>, if anything. Each result is \<open>None\<close> for a sleep that ran to its
  end, or the nanoseconds that an interruption left; a request of a second or more is
  refused and stores nothing. The value is the requests made; the list of results ends
  with a sleep that has not returned.\<close>

fun sleep_loop :: "u64 \<Rightarrow> u64 option \<Rightarrow> u64 option list \<Rightarrow> (ub + u64 list) option" where
  "sleep_loop ns rem [] = None"
| "sleep_loop ns rem (r # rs) =
     (if 1000000000 \<le> ns then
        (case rem of
           None \<Rightarrow> Some (Inl Uninitialised)
         | Some k \<Rightarrow>
             (case sleep_loop k rem rs of
                None \<Rightarrow> None | Some (Inl e) \<Rightarrow> Some (Inl e) | Some (Inr reqs) \<Rightarrow> Some (Inr (ns # reqs))))
      else case r of
        None \<Rightarrow> Some (Inr [ns])
      | Some k \<Rightarrow>
          (case sleep_loop k (Some k) rs of
             None \<Rightarrow> None | Some (Inl e) \<Rightarrow> Some (Inl e) | Some (Inr reqs) \<Rightarrow> Some (Inr (ns # reqs))))"

text \<open>However often a sleep below a second is interrupted, it is resumed with exactly what was left.\<close>

lemma sleep_resumes:
  "\<forall>k \<in> set (ns # ks). k < 1000000000 \<Longrightarrow> sleep_loop ns rem (map Some ks @ None # rs) = Some (Inr (ns # ks))"
  by (induction ks arbitrary: ns rem) (auto simp: not_le)

text \<open>At one hertz the first sleep is refused, and the loop reads what no call has written.\<close>

lemma one_hertz_not_slept: "sleep_loop (sleep_time (\<lambda>x. x) 1) None (r # rs) = Some (Inl Uninitialised)"
  by (simp add: sleep_time_def)

section \<open>Batching\<close>

fun offer_all :: "sample list \<Rightarrow> circular_buffer \<Rightarrow> u8 list \<Rightarrow> ub + (u8 list list \<times> circular_buffer)" where
  "offer_all [] cb b = Inr ([], cb)"
| "offer_all (x # xs) cb b =
     (case offer x cb b of
        Inl e \<Rightarrow> Inl e
      | Inr (p, cb', b') \<Rightarrow>
          (case offer_all xs cb' b' of
             Inl e \<Rightarrow> Inl e
           | Inr (ps, cb'') \<Rightarrow> Inr (case p of None \<Rightarrow> ps | Some q \<Rightarrow> q # ps, cb'')))"

text \<open>What a ring of 16 samples stands for: the samples waiting and the batches handed out. The
  sample that meets a full ring is in neither.\<close>

fun batches :: "sample list \<Rightarrow> sample list \<Rightarrow> sample list list \<times> sample list" where
  "batches q [] = ([], q)"
| "batches q (x # xs) =
     (if length q = 16 then (case batches [] xs of (bs, q') \<Rightarrow> (q # bs, q')) else batches (q @ [x]) xs)"

lemma BUFF_SIZE_unat [simp]: "unat BUFF_SIZE = 260"
  by (simp add: BUFF_SIZE_def)

lemma offer_room:
  assumes "ring_safe cb" and "length (items cb) < capacity cb"
  shows "offer x cb b = Inr (None, pushed (fst x) (snd x) cb, b)"
  using ring_safe_push [OF assms(1)] assms(2) by (simp add: offer_def)

lemma offer_full:
  assumes "ring_safe cb" and "length (items cb) = capacity cb" and "capacity cb = 16" and "length b = 260"
  shows "offer x cb b = Inr (Some (packet (sensor cb) (items cb) b), drained 16 cb, packet (sensor cb) (items cb) b)"
proof -
  have wf: "ring_wf cb" using assms(1) by (simp add: ring_safe_def)
  have "push_data_item (fst x) (snd x) cb = Inr (FULL, cb)"
    using ring.push_full [OF assms(1,2), of x] by (simp add: push_sample_def)
  moreover have "get_data BUFF_SIZE b cb = Inr (260, packet (sensor cb) (items cb) b, drained 16 cb)"
    using get_data_eq [OF wf, of BUFF_SIZE b 16] assms by simp
  ultimately show ?thesis by (simp add: offer_def)
qed

lemma offer_all_batches:
  assumes "ring_safe cb" and "capacity cb = 16" and "length b = 260"
  shows "\<exists>ps cb'. offer_all xs cb b = Inr (ps, cb') \<and> ring_safe cb' \<and> capacity cb' = 16 \<and>
     items cb' = snd (batches (items cb) xs) \<and>
     list_all2 (\<lambda>p q. length q = 16 \<and> (\<exists>old. length old = 260 \<and> p = packet (sensor cb) q old))
       ps (fst (batches (items cb) xs))"
  using assms
proof (induction xs arbitrary: cb b)
  case Nil
  then show ?case by simp
next
  case (Cons x xs)
  have bound: "length (items cb) \<le> 16" using ring.bound [OF Cons.prems(1)] Cons.prems(2) by simp
  show ?case
  proof (cases "length (items cb) = 16")
    case True
    let ?p = "packet (sensor cb) (items cb) b"
    have off: "offer x cb b = Inr (Some ?p, drained 16 cb, ?p)"
      using offer_full Cons.prems True by simp
    have "ring_safe (drained 16 cb)" "items (drained 16 cb) = []"
      using ring_safe_drained [of cb 16] drained_facts [of cb 16] Cons.prems(1) True
      by (auto simp: ring_safe_def)
    moreover have "length ?p = 260" using length_packet [of "items cb" b] True Cons.prems(3) by simp
    ultimately obtain ps cb' where "offer_all xs (drained 16 cb) ?p = Inr (ps, cb')" "ring_safe cb'"
      "capacity cb' = 16" "items cb' = snd (batches [] xs)"
      "list_all2 (\<lambda>p q. length q = 16 \<and> (\<exists>old. length old = 260 \<and> p = packet (sensor cb) q old))
        ps (fst (batches [] xs))"
      using Cons.IH [of "drained 16 cb" ?p] Cons.prems(2) by auto
    then show ?thesis
      using off True Cons.prems(3) by (auto simp: split_beta)
  next
    case False
    then have lt: "length (items cb) < capacity cb" using bound Cons.prems(2) by simp
    show ?thesis
      using Cons.IH [of "pushed (fst x) (snd x) cb" b] Cons.prems False
        ring_safe_push [OF Cons.prems(1), of "fst x" "snd x"] offer_room [OF Cons.prems(1) lt, of x b] lt
      by auto
  qed
qed

text \<open>The samples that are not dropped: all but every seventeenth.\<close>

definition kept :: "nat \<Rightarrow> 'a list \<Rightarrow> 'a list" where
  "kept n xs = nths xs {i. (i + n) mod 17 \<noteq> 16}"

lemma kept_Cons: "kept n (x # xs) = (if n mod 17 \<noteq> 16 then [x] else []) @ kept (Suc n) xs"
  by (simp add: kept_def nths_Cons)

lemma kept_mod: "kept (n mod 17) xs = kept n xs"
  by (simp add: kept_def mod_add_right_eq)

lemma batches_kept:
  "length q \<le> 16 \<Longrightarrow> concat (fst (batches q xs)) @ snd (batches q xs) = q @ kept (length q) xs"
proof (induction q xs rule: batches.induct)
  case (2 q x xs)
  show ?case
  proof (cases "length q = 16")
    case True
    then have "kept (length q) (x # xs) = kept (17 mod 17) xs"
      using kept_mod [of 17 xs] by (simp add: kept_Cons)
    then show ?thesis using 2 True by (simp add: split_beta)
  next
    case False
    then show ?thesis using 2 by (simp add: kept_Cons)
  qed
qed (simp add: kept_def)

lemma batches_length: "length q \<le> 16 \<Longrightarrow> length (snd (batches q xs)) \<le> 16"
  by (induction q xs rule: batches.induct) (auto simp: split_beta)

lemma kept_set: "set (kept n xs) \<subseteq> set xs"
  by (simp add: kept_def set_nths_subset)

lemma decode_batches:
  assumes "list_all2 (\<lambda>p q. length q = 16 \<and> (\<exists>old. length old = 260 \<and> p = packet s q old)) ps qs"
    and "\<forall>x \<in> set (concat qs). unat (fst x) < 32768"
  shows "decode_log (concat ps) = map (\<lambda>(r, t). (int (unat r), unat t)) (concat qs)"
proof -
  have "\<exists>trip. map (\<lambda>(s, xs, old). packet s xs old) trip = ps \<and> map (\<lambda>(s, xs, old). xs) trip = qs \<and>
      (\<forall>p \<in> set trip. length (fst (snd p)) = 16 \<and> length (snd (snd p)) = 260)"
    using assms(1)
  proof (induction ps qs rule: list_all2_induct)
    case Nil
    show ?case by (intro exI [of _ "[]"]) simp
  next
    case (Cons p ps q qs)
    then obtain trip old where "map (\<lambda>(s, xs, old). packet s xs old) trip = ps"
      "map (\<lambda>(s, xs, old). xs) trip = qs"
      "\<forall>p \<in> set trip. length (fst (snd p)) = 16 \<and> length (snd (snd p)) = 260"
      "length q = 16" "length old = 260" "p = packet s q old" by blast
    then show ?case by (intro exI [of _ "(s, q, old) # trip"]) simp
  qed
  then obtain trip where t: "map (\<lambda>(s, xs, old). packet s xs old) trip = ps"
    "map (\<lambda>(s, xs, old). xs) trip = qs"
    "\<forall>p \<in> set trip. length (fst (snd p)) = 16 \<and> length (snd (snd p)) = 260" by blast
  have "\<forall>x \<in> set (concat qs). sint (fst x) = int (unat (fst x))"
    using assms(2) sint_small by blast
  then show ?thesis
    using decode_log_packets [OF t(3)] unfolding t(1,2) by (auto simp: split_beta intro!: map_cong)
qed

end
