(* ===== verification/Resfet_Init.thy ===== *)
theory Resfet_Init
  imports Resfet_Adc
begin

text \<open>
  The initialisation functions (src/init/init.cpp): each is the calls it appends to the
  world's trace. The properties say what the pins are commanded to be afterwards, and
  which pins are outputs when they are first written.
\<close>

section \<open>Functions\<close>

definition cs_init_calls :: "RPiGPIOPin \<Rightarrow> level \<Rightarrow> hw_call list" where
  "cs_init_calls p l = [Gpio_fsel_outp p, Gpio_write p l]"

definition luna_pin_calls :: "hw_call list" where
  "luna_pin_calls =
    cs_init_calls ADC_0_CS HIGH @ cs_init_calls ADC_1_CS HIGH @ cs_init_calls ADC_2_CS HIGH @
    cs_init_calls MAIN_VALVE LOW @ cs_init_calls PRESSURE_VALVE LOW @ cs_init_calls IGN_START LOW"

definition initialize_pins :: "world \<Rightarrow> world" where
  "initialize_pins = do_calls luna_pin_calls"

definition titan_pin_calls :: "hw_call list" where
  "titan_pin_calls =
    cs_init_calls ADC_0_CS HIGH @ cs_init_calls ADC_1_CS HIGH @ cs_init_calls ADC_2_CS HIGH @
    cs_init_calls MAIN_FEED_VALVE LOW @ cs_init_calls OXI_VALVE LOW @
    cs_init_calls GROUND_VENT_VALVE LOW @ cs_init_calls IGN_START LOW"

definition titan_initialize_pins :: "world \<Rightarrow> world" where
  "titan_initialize_pins = do_calls titan_pin_calls"

definition initialize_spi :: "world \<Rightarrow> nat \<times> world" where
  "initialize_spi w =
    (0, do_calls [Spi_begin, Spi_chipSelect_none, Spi_setBitOrder_msbfirst, Spi_setDataMode3,
          Spi_setClockDivider_1024, Spi_setChipSelectPolarity 0 LOW,
          Spi_setChipSelectPolarity 1 LOW] w)"

lemmas init_defs = initialize_pins_def titan_initialize_pins_def luna_pin_calls_def titan_pin_calls_def
  cs_init_calls_def

section \<open>Chip selects\<close>

text \<open>The ADC tables use the V1 names of the chip-select pins, the initialisation the V2
  names. bcm2835.h gives both names of P1-22, P1-24 and P1-26 one number and different
  pins different numbers: \<open>header_ok\<close> states that of the parameter \<open>num\<close>, which reads a
  name's number.\<close>

definition v2_pins :: "RPiGPIOPin list" where
  "v2_pins = [RPI_V2_GPIO_P1_11, RPI_V2_GPIO_P1_13, RPI_V2_GPIO_P1_15, RPI_V2_GPIO_P1_18,
    RPI_V2_GPIO_P1_22, RPI_V2_GPIO_P1_24, RPI_V2_GPIO_P1_26, RPI_V2_GPIO_P1_32, RPI_V2_GPIO_P1_33]"

definition header_ok :: "(RPiGPIOPin \<Rightarrow> u8) \<Rightarrow> bool" where
  "header_ok num \<longleftrightarrow>
     num RPI_GPIO_P1_22 = num RPI_V2_GPIO_P1_22 \<and> num RPI_GPIO_P1_24 = num RPI_V2_GPIO_P1_24 \<and>
     num RPI_GPIO_P1_26 = num RPI_V2_GPIO_P1_26 \<and> distinct (map num v2_pins)"

definition adc_selects :: "RPiGPIOPin list" where
  "adc_selects = [ADC_0_CS, ADC_1_CS, ADC_2_CS]"

text \<open>No ADC is selected: every chip select was last driven high.\<close>

definition bus_idle :: "(RPiGPIOPin \<Rightarrow> u8) \<Rightarrow> hw_call list \<Rightarrow> bool" where
  "bus_idle num cs \<longleftrightarrow> (\<forall>p \<in> set adc_selects. commanded_by num cs (num p) = Some HIGH)"

text \<open>The ADCs selected (chip select driven low) after a trace.\<close>

definition selected :: "(RPiGPIOPin \<Rightarrow> u8) \<Rightarrow> hw_call list \<Rightarrow> RPiGPIOPin list" where
  "selected num cs = filter (\<lambda>p. commanded_by num cs (num p) = Some LOW) adc_selects"

definition sensor_adc :: "SENSOR \<Rightarrow> RPiGPIOPin" where
  "sensor_adc s =
     (if s \<le> LC5 then ADC_2_CS else if s \<le> PT4 then ADC_1_CS else ADC_0_CS)"

lemma sensor_adc_num:
  "header_ok num \<Longrightarrow> s \<noteq> NUM_SENSORS \<Longrightarrow> num (cs_pin (sensor_info s)) = num (sensor_adc s)"
  by (cases s) (simp_all add: sensor_info_def SENSOR_PINS_def sensor_adc_def header_ok_def
      less_eq_SENSOR_def pin_defs)

lemma sensor_adc_selects: "sensor_adc s \<in> set adc_selects"
  by (simp add: sensor_adc_def adc_selects_def)

lemma adc_selects_num:
  "header_ok num \<Longrightarrow> p \<in> set adc_selects \<Longrightarrow> q \<in> set adc_selects \<Longrightarrow> num p = num q \<longleftrightarrow> p = q"
  by (auto simp: header_ok_def adc_selects_def v2_pins_def pin_defs)

lemma driver_num:
  "header_ok num \<Longrightarrow> p \<in> set adc_selects \<Longrightarrow>
   q \<in> {DRIVER1, DRIVER2, DRIVER3, DRIVER4, DRIVER5, DRIVER6} \<Longrightarrow> num p \<noteq> num q"
  by (auto simp: header_ok_def adc_selects_def v2_pins_def pin_defs)

lemma commanded_idle_select:
  assumes "bus_idle num cs" and "header_ok num" and "s \<noteq> NUM_SENSORS" and "p \<in> set adc_selects"
  shows "commanded_by num (cs @ [Spi_chipSelect_none, Gpio_write (cs_pin (sensor_info s)) l]) (num p) =
     Some (if p = sensor_adc s then l else HIGH)"
  using assms adc_selects_num [OF assms(2,4) sensor_adc_selects, of s]
  by (auto simp: commanded_append commanded_Cons sensor_adc_num bus_idle_def map_add_def)

lemma bus_idle_read:
  assumes "bus_idle num cs" and "header_ok num" and "s \<noteq> NUM_SENSORS"
  shows "bus_idle num (cs @ read_calls s)"
  using assms by (auto simp: bus_idle_def read_calls_def commanded_append commanded_Cons map_add_def)

lemma selected_idle:
  assumes "bus_idle num cs"
  shows "selected num cs = []"
  using assms by (auto simp: selected_def bus_idle_def filter_empty_conv)

lemma selected_during_read:
  assumes "bus_idle num cs" and "header_ok num" and "s \<noteq> NUM_SENSORS"
  shows "selected num (cs @ take 2 (read_calls s)) = [sensor_adc s]"
proof -
  have "filter (\<lambda>p. p = sensor_adc s) adc_selects = [sensor_adc s]"
    by (cases s) (simp_all add: adc_selects_def sensor_adc_def less_eq_SENSOR_def pin_defs)
  moreover have "filter (\<lambda>p. commanded_by num (cs @ take 2 (read_calls s)) (num p) = Some LOW) adc_selects =
      filter (\<lambda>p. p = sensor_adc s) adc_selects"
    using commanded_idle_select [OF assms, of _ LOW]
    by (intro filter_cong) (auto simp: read_calls_def)
  ultimately show ?thesis by (simp add: selected_def)
qed

section \<open>Properties\<close>

definition sample_header :: "RPiGPIOPin \<Rightarrow> u8" where
  "sample_header p =
     (case p of RPI_GPIO_P1_22 \<Rightarrow> 25 | RPI_GPIO_P1_24 \<Rightarrow> 8 | RPI_GPIO_P1_26 \<Rightarrow> 7
      | RPI_V2_GPIO_P1_11 \<Rightarrow> 17 | RPI_V2_GPIO_P1_13 \<Rightarrow> 27 | RPI_V2_GPIO_P1_15 \<Rightarrow> 22
      | RPI_V2_GPIO_P1_18 \<Rightarrow> 24 | RPI_V2_GPIO_P1_22 \<Rightarrow> 25 | RPI_V2_GPIO_P1_24 \<Rightarrow> 8
      | RPI_V2_GPIO_P1_26 \<Rightarrow> 7 | RPI_V2_GPIO_P1_32 \<Rightarrow> 12 | RPI_V2_GPIO_P1_33 \<Rightarrow> 13)"

lemma sample_header_ok: "header_ok sample_header"
  by (simp add: header_ok_def sample_header_def v2_pins_def)


lemma bus_idle_initialize_pins:
  "header_ok num \<Longrightarrow> bus_idle num (calls (initialize_pins w))"
  "header_ok num \<Longrightarrow> bus_idle num (calls (titan_initialize_pins w))"
  by (auto simp: init_defs bus_idle_def adc_selects_def commanded_append commanded_Cons map_add_def
      pin_defs header_ok_def v2_pins_def)


text \<open>Both pin initialisations make every pin they write an output first, and leave the
  igniter and the valves of their engine low and the chip selects high.\<close>

lemma initialize_pins_safe_state:
  "unconfigured_writes [] (drop (length (calls w)) (calls (initialize_pins w))) = [] \<and>
   unconfigured_writes [] (drop (length (calls w)) (calls (titan_initialize_pins w))) = [] \<and>
   map (commanded (calls (initialize_pins w))) [MAIN_VALVE, PRESSURE_VALVE, IGN_START] =
     [Some LOW, Some LOW, Some LOW] \<and>
   map (commanded (calls (titan_initialize_pins w)))
     [MAIN_FEED_VALVE, OXI_VALVE, GROUND_VENT_VALVE, IGN_START] =
     [Some LOW, Some LOW, Some LOW, Some LOW] \<and>
   map (commanded (calls (initialize_pins w))) adc_selects = [Some HIGH, Some HIGH, Some HIGH] \<and>
   map (commanded (calls (titan_initialize_pins w))) adc_selects = [Some HIGH, Some HIGH, Some HIGH]"
  by (simp add: init_defs adc_selects_def commanded_append commanded_Cons map_add_def pin_defs)

end
