(* ===== verification/Resfet_Thread.thy ===== *)
theory Resfet_Thread
  imports Resfet_Sampling Resfet_Init
begin

text \<open>
  The properties of the sensor threads: which samples reach the log and the network, the
  pressure shutoff, the sampling period, and the heap overflow of the threads as they are
  constructed.
\<close>

section \<open>Batching\<close>

text \<open>Samples offered to a fresh ring with enough memory: the logged packets, decoded, and
  then the samples still buffered are the offered samples in order, except every
  seventeenth, which is lost.\<close>

lemma every_seventeenth_sample_lost:
  assumes "17 \<le> length cells" and "length b = 260" and "\<forall>x \<in> set xs. unat (fst x) < 32768"
  shows "\<exists>ps cb'. offer_all xs (new_circular_buffer s 16 cells) b = Inr (ps, cb') \<and>
     length (items cb') \<le> 16 \<and>
     decode_log (concat ps) @ map (\<lambda>(r, t). (int (unat r), unat t)) (items cb') =
       map (\<lambda>(r, t). (int (unat r), unat t)) (kept 0 xs)"
proof -
  let ?cb = "new_circular_buffer s 16 cells"
  have safe: "ring_safe ?cb" using ring_safe_new [of 16 cells s] assms(1) by simp
  obtain ps cb' where run: "offer_all xs ?cb b = Inr (ps, cb')"
    and it: "items cb' = snd (batches [] xs)"
    and ps: "list_all2 (\<lambda>p q. length q = 16 \<and> (\<exists>old. length old = 260 \<and> p = packet s q old))
        ps (fst (batches [] xs))"
    using offer_all_batches [OF safe _ assms(2), of xs] by (auto simp: ring_simps)
  have k: "concat (fst (batches [] xs)) @ snd (batches [] xs) = kept 0 xs"
    using batches_kept [of "[]" xs] by simp
  then have "set (concat (fst (batches [] xs))) \<subseteq> set xs"
    using kept_set [of 0 xs] by (metis Un_subset_iff set_append)
  then have "decode_log (concat ps) =
      map (\<lambda>(r, t). (int (unat r), unat t)) (concat (fst (batches [] xs)))"
    using decode_batches [OF ps] assms(3) by blast
  then show ?thesis
    using run it batches_length [of "[]" xs] by (auto simp flip: map_append k simp del: length_items)
qed

lemma every_seventeenth_sample_lost_witness:
  "\<exists>ps cb'. offer_all (map (\<lambda>i. (of_nat i, of_nat i)) [0..<20]) (new_circular_buffer PT1 16 (replicate 17 blank_item))
       (replicate 260 0) = Inr (ps, cb') \<and>
     decode_log (concat ps) @ map (\<lambda>(r, t). (int (unat r), unat t)) (items cb') =
       map (\<lambda>i. (int i, i)) ([0..<16] @ [17, 18, 19])"
proof -
  let ?xs = "map (\<lambda>i. (of_nat i, of_nat i)) [0..<20] :: sample list"
  have "\<forall>x \<in> set ?xs. unat (fst x) < 32768"
    by (auto simp: unsigned_of_nat take_bit_nat_eq_self)
  then obtain ps cb' where "offer_all ?xs (new_circular_buffer PT1 16 (replicate 17 blank_item)) (replicate 260 0) = Inr (ps, cb')"
    "decode_log (concat ps) @ map (\<lambda>(r, t). (int (unat r), unat t)) (items cb') =
       map (\<lambda>(r, t). (int (unat r), unat t)) (kept 0 ?xs)"
    using every_seventeenth_sample_lost [of "replicate 17 blank_item" "replicate 260 0" ?xs PT1] by auto
  moreover have "map (\<lambda>(r, t). (int (unat r), unat t)) (kept 0 ?xs) = map (\<lambda>i. (int i, i)) ([0..<16] @ [17, 18, 19])"
    by (simp add: upt_conv_Cons kept_Cons) (simp add: kept_def)
  ultimately show ?thesis by auto
qed

section \<open>Rings on the memory the constructor allocates\<close>

text \<open>The state of a ring on 16 cells after \<open>k\<close> samples.\<close>

definition lap :: "nat \<Rightarrow> SENSOR \<Rightarrow> circular_buffer \<Rightarrow> bool" where
  "lap k s cb \<longleftrightarrow> ring_wf cb \<and> end_ptr cb = 17 \<and> length (data cb) = 16 \<and> sensor cb = s \<and>
     head cb = min k 16 \<and> tail cb = (if k \<le> 16 then 0 else 16)"

lemma lap_new: "length cells = 16 \<Longrightarrow> lap 0 s (new_circular_buffer s 16 cells)"
  by (simp add: lap_def ring_simps)

lemma lap_offer:
  assumes "lap k s cb" and "k \<le> 16" and "length b = 260"
  shows "\<exists>p cb' b'. offer x cb b = Inr (p, cb', b') \<and> lap (Suc k) s cb' \<and> length b' = 260 \<and>
     (p = None \<longleftrightarrow> k < 16)"
proof (cases "k < 16")
  case True
  have wf: "ring_wf cb" and room: "used cb < capacity cb" "head cb < length (data cb)"
    using assms(1) True by (auto simp: lap_def used_def capacity_def)
  then have "offer x cb b = Inr (None, pushed (fst x) (snd x) cb, b)"
    by (simp add: offer_def push_cases)
  moreover have "lap (Suc k) s (pushed (fst x) (snd x) cb)"
    using assms(1) True ring_wf_pushed [OF wf room] by (simp add: lap_def next_ptr_def)
  ultimately show ?thesis using True assms(3) by blast
next
  case False
  then have k: "k = 16" using assms(2) by simp
  have wf: "ring_wf cb" and used: "used cb = 16" "capacity cb = 16"
    using assms(1) k by (auto simp: lap_def used_def capacity_def)
  have "get_data BUFF_SIZE b cb = Inr (260, packet (sensor cb) (items cb) b, drained 16 cb)"
    using get_data_eq [OF wf, of BUFF_SIZE b 16] used assms(3) by simp
  then have off: "offer x cb b = Inr (Some (packet (sensor cb) (items cb) b), drained 16 cb, packet (sensor cb) (items cb) b)"
    using wf used by (simp add: offer_def push_cases)
  have dr: "ring_wf (drained 16 cb)" "used (drained 16 cb) = 0"
    using drained_facts [OF wf, of 16] used by auto
  then have "tail (drained 16 cb) = 16"
    using head_eq_tail [OF dr(1)] assms(1) k by (simp add: lap_def)
  then have "lap (Suc k) s (drained 16 cb)" using assms(1) k dr by (simp add: lap_def)
  then show ?thesis using off k length_packet [of "items cb" b] used assms(3) by auto
qed

lemma lap_overflow:
  assumes "lap 17 s cb"
  shows "offer x cb b = Inl OutOfBounds"
  using assms push_overflow_iff [of cb "fst x" "snd x"]
  by (auto simp: lap_def offer_def used_def capacity_def)

section \<open>One ring of a round\<close>

lemma read_registered:
  assumes "registered rd s" and "\<not> adc_mutex w"
  shows "\<exists>r w'. read_item cs spi rd (sensor_code s) w = Inr (r, w') \<and> \<not> adc_mutex w' \<and>
     calls w' = calls w @ read_calls s \<and> pressureShutoff w' = pressureShutoff w"
proof -
  obtain b0 b1 b2 where "spi (calls w @ take 2 (read_calls s)) [24 + channel (sensor_info s), 0, 0] = (b0, b1, b2)"
    by (metis prod_cases3)
  then show ?thesis using read_item_registered [of rd s w spi b0 b1 b2 cs] assms by auto
qed

text \<open>The reading of a registered sensor, as a function of the state before the read.\<close>

definition reading_of :: "platform \<Rightarrow> PeriodicThread \<Rightarrow> SENSOR \<Rightarrow> world \<Rightarrow> u16" where
  "reading_of pf th s w =
     (case read_item (plain_char_signed pf) (spi_answer pf) (reader th) (sensor_code s) w of
        Inl _ \<Rightarrow> 0 | Inr (r, _) \<Rightarrow> r)"

definition next_avg :: "platform \<Rightarrow> PeriodicThread \<Rightarrow> SENSOR \<Rightarrow> world \<Rightarrow> real \<Rightarrow> real" where
  "next_avg pf th s w avg =
     (if s = PT1 then comb_update (rounding pf) th (reading_of pf th s w) avg else avg)"

definition next_flag :: "platform \<Rightarrow> PeriodicThread \<Rightarrow> SENSOR \<Rightarrow> world \<Rightarrow> real \<Rightarrow> bool" where
  "next_flag pf th s w avg =
     (if s = PT1 then out_of_range th (next_avg pf th s w avg) else pressureShutoff w)"

lemma sample_ring_offer:
  assumes "registered (reader th) (sensor (rings s ! i))" and "\<not> adc_mutex w"
    and "offer (reading_of pf th (sensor (rings s ! i)) w, clock_us pf (calls w @ read_calls (sensor (rings s ! i))))
           (rings s ! i) (packet_buf s) = Inr (p, cb', b')"
  shows "\<exists>s' w'. sample_ring pf th i (s, w) =
       Inr (p \<noteq> None \<and> (sock th = None \<or> sock th = Some (- 1)), s', w') \<and>
     \<not> adc_mutex w' \<and> calls w' = calls w @ read_calls (sensor (rings s ! i)) \<and>
     pressureShutoff w' = next_flag pf th (sensor (rings s ! i)) w (combAvg s) \<and>
     combAvg s' = next_avg pf th (sensor (rings s ! i)) w (combAvg s) \<and>
     rings s' = (rings s)[i := cb'] \<and>
     packet_buf s' = (if p = None then packet_buf s else b') \<and>
     logs s' = (case p of None \<Rightarrow> logs s | Some q \<Rightarrow> (logs s)[i := logs s ! i @ q])"
proof -
  obtain sn where sn: "sensor (rings s ! i) = sn" by blast
  obtain r w1 where read: "read_item (plain_char_signed pf) (spi_answer pf) (reader th) (sensor_code sn) w = Inr (r, w1)"
    and w1: "\<not> adc_mutex w1" "calls w1 = calls w @ read_calls sn" "pressureShutoff w1 = pressureShutoff w"
    using read_registered [OF assms(1,2)] sn by blast
  have r: "reading_of pf th sn w = r" by (simp add: reading_of_def read)
  have off: "offer (r, clock_us pf (calls w @ read_calls sn)) (rings s ! i) (packet_buf s) = Inr (p, cb', b')"
    using assms(3) by (simp only: sn r)
  show ?thesis
    unfolding sample_ring_def Let_def fst_conv snd_conv sn read next_flag_def next_avg_def r
    using off w1 by (cases "sn = PT1"; cases p; cases "sock th") auto
qed

lemma sample_ring_offer_error:
  assumes "registered (reader th) (sensor (rings s ! i))" and "\<not> adc_mutex w"
    and "offer (reading_of pf th (sensor (rings s ! i)) w, clock_us pf (calls w @ read_calls (sensor (rings s ! i))))
           (rings s ! i) (packet_buf s) = Inl e"
  shows "sample_ring pf th i (s, w) = Inl (Memory e)"
proof -
  obtain sn where sn: "sensor (rings s ! i) = sn" by blast
  obtain r w1 where read: "read_item (plain_char_signed pf) (spi_answer pf) (reader th) (sensor_code sn) w = Inr (r, w1)"
    and w1: "calls w1 = calls w @ read_calls sn"
    using read_registered [OF assms(1,2)] sn by blast
  have "reading_of pf th sn w = r" by (simp add: reading_of_def read)
  then have "offer (r, clock_us pf (calls w @ read_calls sn)) (rings s ! i) (packet_buf s) = Inl e"
    using assms(3) by (simp only: sn)
  then show ?thesis
    unfolding sample_ring_def Let_def fst_conv snd_conv sn read using w1 by (cases "sn = PT1") auto
qed

lemma sample_ring_overflow:
  assumes "registered (reader th) (sensor (rings s ! i))" and "\<not> adc_mutex w"
    and "\<And>x. offer x (rings s ! i) (packet_buf s) = Inl e"
  shows "sample_ring pf th i (s, w) = Inl (Memory e)"
  by (rule sample_ring_offer_error [OF assms(1,2,3)])

section \<open>Rounds on the memory the constructor allocates\<close>

definition laps :: "nat \<Rightarrow> nat \<Rightarrow> PeriodicThread \<Rightarrow> SENSOR list \<Rightarrow> sampler \<times> world \<Rightarrow> bool" where
  "laps k j th ss sw \<longleftrightarrow>
     length (rings (fst sw)) = length ss \<and> length (packet_buf (fst sw)) = 260 \<and> \<not> adc_mutex (snd sw) \<and>
     (\<forall>i < length ss. registered (reader th) (ss ! i) \<and>
        lap (if i < j then Suc k else k) (ss ! i) (rings (fst sw) ! i))"

lemma laps_Suc: "laps k (length ss) th ss sw \<longleftrightarrow> laps (Suc k) 0 th ss sw"
  by (simp add: laps_def)

lemma laps_ring:
  assumes "laps k j th ss (s, w)" and "k \<le> 16" and "j < length ss"
    and "sock th = Some fd" and "fd \<noteq> - 1"
  shows "\<exists>s' w'. sample_ring pf th j (s, w) = Inr (False, s', w') \<and> laps k (Suc j) th ss (s', w')"
proof -
  let ?sn = "ss ! j"
  let ?x = "(reading_of pf th ?sn w, clock_us pf (calls w @ read_calls ?sn))"
  have lap: "lap k ?sn (rings s ! j)" and reg: "registered (reader th) ?sn"
    and buf: "length (packet_buf s) = 260" and mutex: "\<not> adc_mutex w"
    using assms(1,3) by (auto simp: laps_def)
  then have sn: "sensor (rings s ! j) = ?sn" by (simp add: lap_def)
  obtain p cb' b' where off: "offer ?x (rings s ! j) (packet_buf s) = Inr (p, cb', b')"
    and lap': "lap (Suc k) ?sn cb'" and b': "length b' = 260"
    using lap_offer [OF lap assms(2) buf] by blast
  obtain s' w' where run: "sample_ring pf th j (s, w) = Inr (p \<noteq> None \<and> (sock th = None \<or> sock th = Some (- 1)), s', w')"
    and s': "\<not> adc_mutex w'" "rings s' = (rings s)[j := cb']"
      "packet_buf s' = (if p = None then packet_buf s else b')"
    using sample_ring_offer [of th s j w pf p cb' b'] sn reg mutex off by auto
  have "laps k (Suc j) th ss (s', w')"
    using assms(1,3) s' lap' b' buf by (auto simp: laps_def nth_list_update less_Suc_eq)
  then show ?thesis using run assms(4,5) by auto
qed

lemma laps_rings:
  assumes "laps k j th ss sw" and "k \<le> 16" and "j \<le> length ss"
    and "sock th = Some fd" and "fd \<noteq> - 1"
  shows "\<exists>sw'. sample_rings pf th [j..<length ss] sw = Inr (False, sw') \<and> laps k (length ss) th ss sw'"
  using assms(1,3)
proof (induction "length ss - j" arbitrary: j sw)
  case 0
  then show ?case by simp
next
  case (Suc d)
  then have j: "j < length ss" by simp
  obtain s w where sw: "sw = (s, w)" by (cases sw)
  obtain s' w' where one: "sample_ring pf th j (s, w) = Inr (False, s', w')" "laps k (Suc j) th ss (s', w')"
    using laps_ring [OF _ assms(2) j assms(4,5)] Suc.prems sw by blast
  have "d = length ss - Suc j" using Suc.hyps(2) by simp
  from Suc.hyps(1) [OF this one(2)] j
  obtain sw' where "sample_rings pf th [Suc j..<length ss] (s', w') = Inr (False, sw')"
    "laps k (length ss) th ss sw'" by (metis Suc_leI)
  then show ?case using one(1) sw j by (simp add: upt_conv_Cons)
qed

lemma laps_rounds:
  assumes "laps k 0 th ss sw" and "k + n \<le> 17" and "sock th = Some fd" and "fd \<noteq> - 1"
  shows "\<exists>sw'. laps (k + n) 0 th ss sw' \<and> (\<forall>m. sample_rounds pf th (n + m) sw = sample_rounds pf th m sw')"
  using assms(1,2)
proof (induction n arbitrary: k sw)
  case 0
  then show ?case by (intro exI [of _ sw]) simp
next
  case (Suc n)
  obtain sw1 where "sample_rings pf th [0..<length ss] sw = Inr (False, sw1)" "laps (Suc k) 0 th ss sw1"
    using laps_rings [OF Suc.prems(1) _ _ assms(3,4), of pf] Suc.prems(2) laps_Suc by auto
  moreover have "length (rings (fst sw)) = length ss" using Suc.prems(1) by (simp add: laps_def)
  ultimately show ?case
    using Suc.IH [of "Suc k" sw1] Suc.prems(2) by (simp add: sample_round_def)
qed

lemma laps_overflow:
  assumes "laps 17 0 th ss (s, w)" and "ss \<noteq> []"
  shows "sample_rounds pf th (Suc m) (s, w) = Inl (Memory OutOfBounds)"
proof -
  have lap: "lap 17 (ss ! 0) (rings s ! 0)" and reg: "registered (reader th) (ss ! 0)"
    using assms by (auto simp: laps_def)
  then have "sample_ring pf th 0 (s, w) = Inl (Memory OutOfBounds)"
    using assms(1) lap_overflow by (intro sample_ring_overflow) (auto simp: laps_def lap_def)
  moreover have "[0..<length (rings s)] = 0 # [1..<length (rings s)]"
    using assms by (auto simp: laps_def upt_conv_Cons)
  ultimately show ?thesis by (simp add: sample_round_def)
qed


definition plain_platform :: platform where
  "plain_platform = \<lparr>plain_char_signed = False, spi_answer = (\<lambda>_ _. (0, 7, 129)),
     clock_us = (\<lambda>cs. of_nat (length cs)), rounding = (\<lambda>x. x)\<rparr>"


section \<open>A round on rings with enough memory\<close>

text \<open>On a ring with enough memory the loop body either appends the new sample, or, when 16
  samples are waiting, hands exactly those to the log (and to the socket) as one packet and
  empties the ring; the thread ends only in the second case, when it has no usable socket.
  No other ring changes.\<close>

lemma sample_ring_batches:
  fixes pf :: platform
  assumes "registered (reader th) (sensor (rings s ! i))" and "\<not> adc_mutex w" and "i < length (rings s)"
    and "ring_safe (rings s ! i)" and "capacity (rings s ! i) = 16" and "length (packet_buf s) = 260"
  defines "sn \<equiv> sensor (rings s ! i)" and "q \<equiv> items (rings s ! i)"
  defines "x \<equiv> (reading_of pf th sn w, clock_us pf (calls w @ read_calls sn))"
  shows "\<exists>stop s' w'. sample_ring pf th i (s, w) = Inr (stop, s', w') \<and> ring_safe (rings s' ! i) \<and>
     (if length q < 16 then \<not> stop \<and> items (rings s' ! i) = q @ [x] \<and> logs s' = logs s
      else stop = (sock th = None \<or> sock th = Some (- 1)) \<and> items (rings s' ! i) = [] \<and>
        logs s' = (logs s)[i := logs s ! i @ packet sn q (packet_buf s)]) \<and>
     (\<forall>j. j \<noteq> i \<longrightarrow> rings s' ! j = rings s ! j)"
proof (cases "length q < 16")
  case True
  let ?cb' = "pushed (fst x) (snd x) (rings s ! i)"
  have off: "offer x (rings s ! i) (packet_buf s) = Inr (None, ?cb', packet_buf s)"
    using offer_room [OF assms(4)] True assms(5) by (simp add: q_def)
  have "ring_safe ?cb'" "items ?cb' = q @ [x]"
    using ring_safe_push [OF assms(4), of "fst x" "snd x"] True assms(5) by (simp_all add: q_def)
  moreover obtain s' w' where "sample_ring pf th i (s, w) = Inr (False, s', w')"
    "rings s' = (rings s)[i := ?cb']" "logs s' = logs s"
    using sample_ring_offer [OF assms(1,2) off [unfolded x_def sn_def]] by (auto simp: x_def sn_def)
  ultimately show ?thesis
    using True assms(3) by (intro exI [of _ False] exI [of _ s'] exI [of _ w']) simp
next
  case False
  then have full: "length q = 16" using ring.bound [OF assms(4)] assms(5) by (simp add: q_def)
  have off: "offer x (rings s ! i) (packet_buf s) = Inr (Some (packet sn q (packet_buf s)), drained 16 (rings s ! i), packet sn q (packet_buf s))"
    using offer_full [OF assms(4)] full assms(5,6) by (simp add: q_def sn_def)
  have "ring_safe (drained 16 (rings s ! i))" "items (drained 16 (rings s ! i)) = []"
    using ring_safe_drained [OF assms(4), of 16] drained_facts [of "rings s ! i" 16] assms(4) full
    by (auto simp: q_def ring_safe_def)
  moreover obtain s' w' where
    "sample_ring pf th i (s, w) = Inr (sock th = None \<or> sock th = Some (- 1), s', w')"
    "rings s' = (rings s)[i := drained 16 (rings s ! i)]"
    "logs s' = (logs s)[i := logs s ! i @ packet sn q (packet_buf s)]"
    using sample_ring_offer [OF assms(1,2) off [unfolded x_def sn_def]] by (auto simp: sn_def)
  ultimately show ?thesis
    using False assms(3)
    by (intro exI [of _ "sock th = None \<or> sock th = Some (- 1)"] exI [of _ s'] exI [of _ w']) simp
qed

definition pt_ring :: circular_buffer where
  "pt_ring = new_circular_buffer PT1 16 (replicate 17 blank_item)"

definition pt_thread :: PeriodicThread where
  "pt_thread = \<lparr>reader = full_reader, buffers = [pt_ring], sleep_time_ns = 2000000,
     num_sensors = 1, pressureMax = 800, pressureMin = 300, pressureSlope = - 3 / 10,
     pressureYint = 11081 / 10, sock = Some 5\<rparr>"

definition pt_start :: sampler where
  "pt_start = thread_start pt_thread (replicate 260 0)"

lemma pt_facts:
  "rings pt_start ! 0 = pt_ring" "length (rings pt_start) = 1" "length (packet_buf pt_start) = 260"
  "combAvg pt_start = 700" "reader pt_thread = full_reader" "\<not> adc_mutex idle_world"
  "sensor pt_ring = PT1" "capacity pt_ring = 16" "items pt_ring = []"
  by (simp_all add: pt_start_def thread_start_def pt_thread_def pt_ring_def idle_world_def ring_simps)

lemma pt_ring_safe: "ring_safe pt_ring"
  unfolding pt_ring_def by (rule ring_safe_new) simp

lemma pt_registered: "registered (reader pt_thread) (sensor (rings pt_start ! 0))"
  unfolding pt_facts by (rule full_reader_registered) simp

lemma sample_ring_batches_witness:
  "\<exists>stop s' w'. sample_ring plain_platform pt_thread 0 (pt_start, idle_world) = Inr (stop, s', w') \<and>
     \<not> stop \<and> length (items (rings s' ! 0)) = 1"
proof -
  have "0 < length (rings pt_start)" "ring_safe (rings pt_start ! 0)"
    "capacity (rings pt_start ! 0) = 16"
    by (simp_all add: pt_facts pt_ring_safe)
  from sample_ring_batches [OF pt_registered pt_facts(6) this pt_facts(3), of plain_platform]
  obtain stop s' w' where run: "sample_ring plain_platform pt_thread 0 (pt_start, idle_world) = Inr (stop, s', w')"
    and it: "\<not> stop" "items (rings s' ! 0) = [] @ [(reading_of plain_platform pt_thread PT1 idle_world,
        clock_us plain_platform (calls idle_world @ read_calls PT1))]"
    unfolding pt_facts by (auto simp del: length_items)
  then show ?thesis unfolding it(2) by (intro exI [of _ stop] exI [of _ s'] exI [of _ w']) (simp add: it(2) del: length_items)
qed

section \<open>Pressure shutoff\<close>

lemma comb_update_exact:
  "comb_update (\<lambda>x. x) th r avg =
     avg * (95 / 100) + (pressureSlope th * of_nat (unat r) + pressureYint th) * (5 / 100)"
  by (simp add: comb_update_def Let_def)

definition calibrated :: "PeriodicThread \<Rightarrow> u16 \<Rightarrow> real" where
  "calibrated th r = pressureSlope th * of_nat (unat r) + pressureYint th"

definition avg_after :: "PeriodicThread \<Rightarrow> u16 list \<Rightarrow> real \<Rightarrow> real" where
  "avg_after th rs avg = fold (comb_update (\<lambda>x. x) th) rs avg"

lemma avg_in_range:
  "pressureMin th \<le> avg \<Longrightarrow> avg \<le> pressureMax th \<Longrightarrow>
   \<forall>r \<in> set rs. pressureMin th \<le> calibrated th r \<and> calibrated th r \<le> pressureMax th \<Longrightarrow>
   \<not> out_of_range th (avg_after th rs avg)"
proof (induction rs arbitrary: avg)
  case Nil
  then show ?case by (simp add: avg_after_def out_of_range_def)
next
  case (Cons r rs)
  let ?a = "comb_update (\<lambda>x. x) th r avg"
  have r: "pressureMin th \<le> calibrated th r" "calibrated th r \<le> pressureMax th" using Cons.prems by auto
  have a: "?a = avg * (95 / 100) + calibrated th r * (5 / 100)"
    by (simp add: comb_update_exact calibrated_def)
  have "pressureMin th \<le> ?a" using Cons.prems(1) r(1) unfolding a by linarith
  moreover have "?a \<le> pressureMax th" using Cons.prems(2) r(2) unfolding a by linarith
  ultimately show ?case using Cons by (simp add: avg_after_def)
qed

lemma avg_above:
  "\<forall>r \<in> set rs. c \<le> calibrated th r \<Longrightarrow>
   c - (95 / 100) ^ length rs * (c - avg) \<le> avg_after th rs avg"
proof (induction rs arbitrary: avg)
  case Nil
  then show ?case by (simp add: avg_after_def)
next
  case (Cons r rs)
  let ?a = "comb_update (\<lambda>x. x) th r avg" and ?p = "(95 / 100 :: real) ^ length rs"
  have "c - ?a \<le> (95 / 100) * (c - avg)"
    using Cons.prems unfolding comb_update_exact calibrated_def by simp
  then have "?p * (c - ?a) \<le> ?p * ((95 / 100) * (c - avg))" by (intro mult_left_mono) simp_all
  moreover have "?p * ((95 / 100) * (c - avg)) = (95 / 100) ^ length (r # rs) * (c - avg)" by simp
  moreover have "c - ?p * (c - ?a) \<le> avg_after th rs ?a" using Cons by simp
  moreover have "avg_after th (r # rs) avg = avg_after th rs ?a" by (simp add: avg_after_def)
  ultimately show ?case by linarith
qed

text \<open>With exact arithmetic, pressures inside the limits never signal a shutoff, and pressures
  of at least \<open>c\<close> above the upper limit signal one after every run of readings long enough
  for the weight of the old average to fade.\<close>

lemma shutoff_follows_pressure:
  "(pressureMin th \<le> avg \<and> avg \<le> pressureMax th \<and>
      (\<forall>r \<in> set rs. pressureMin th \<le> calibrated th r \<and> calibrated th r \<le> pressureMax th) \<longrightarrow>
      \<not> out_of_range th (avg_after th rs avg)) \<and>
   ((\<forall>r \<in> set rs. c \<le> calibrated th r) \<and> (95 / 100) ^ length rs * (c - avg) < c - pressureMax th \<longrightarrow>
      out_of_range th (avg_after th rs avg))"
proof (intro conjI impI)
  show "\<not> out_of_range th (avg_after th rs avg)"
    if "pressureMin th \<le> avg \<and> avg \<le> pressureMax th \<and>
      (\<forall>r \<in> set rs. pressureMin th \<le> calibrated th r \<and> calibrated th r \<le> pressureMax th)"
    using that avg_in_range by blast
next
  assume high: "(\<forall>r \<in> set rs. c \<le> calibrated th r) \<and> (95 / 100) ^ length rs * (c - avg) < c - pressureMax th"
  then have "c - (95 / 100) ^ length rs * (c - avg) \<le> avg_after th rs avg" using avg_above by blast
  then have "pressureMax th < avg_after th rs avg" using high by linarith
  then show "out_of_range th (avg_after th rs avg)" by (simp add: out_of_range_def)
qed

lemma shutoff_follows_pressure_witness:
  "let th = \<lparr>reader = [], buffers = [], sleep_time_ns = 0, num_sensors = 4, pressureMax = 800,
        pressureMin = 300, pressureSlope = - 3 / 10, pressureYint = 11081 / 10, sock = None\<rparr> in
   \<not> out_of_range th (avg_after th (replicate 50 1500) 700) \<and>
   out_of_range th (avg_after th (replicate 8 360) 700)"
proof -
  let ?th = "\<lparr>reader = [], buffers = [], sleep_time_ns = 0, num_sensors = 4, pressureMax = 800,
        pressureMin = 300, pressureSlope = - 3 / 10, pressureYint = 11081 / 10, sock = None\<rparr>"
  have "3 * (19 / 20 :: real) ^ 8 < 2" by (simp add: power_divide)
  then show ?thesis
    using shutoff_follows_pressure [of ?th 700 "replicate 50 1500" 0]
      shutoff_follows_pressure [of ?th 700 "replicate 8 360" 1000]
    by (simp add: calibrated_def Let_def)
qed

text \<open>The loop body for PT1 folds the calibrated reading into the running average with weight
  1/20, and sets the shutoff flag exactly when the new average is outside the limits, so it
  also clears it; for any other sensor the average and the flag stay as they are.\<close>

lemma pt1_sets_shutoff_flag:
  assumes "registered (reader th) (sensor (rings s ! i))" and "\<not> adc_mutex w"
    and "sample_ring pf th i (s, w) = Inr (stop, s', w')"
  shows "if sensor (rings s ! i) = PT1
     then combAvg s' = comb_update (rounding pf) th (reading_of pf th PT1 w) (combAvg s) \<and>
       pressureShutoff w' = (combAvg s' > pressureMax th \<or> combAvg s' < pressureMin th)
     else combAvg s' = combAvg s \<and> pressureShutoff w' = pressureShutoff w"
proof -
  let ?sn = "sensor (rings s ! i)"
  let ?x = "(reading_of pf th ?sn w, clock_us pf (calls w @ read_calls ?sn))"
  obtain p cb' b' where off: "offer ?x (rings s ! i) (packet_buf s) = Inr (p, cb', b')"
  proof (cases "offer ?x (rings s ! i) (packet_buf s)")
    case (Inl e)
    then have "sample_ring pf th i (s, w) = Inl (Memory e)"
      using sample_ring_offer_error [OF assms(1,2)] by blast
    then show ?thesis using assms(3) by simp
  qed (use that in \<open>auto\<close>)
  show ?thesis
    using sample_ring_offer [OF assms(1,2) off] assms(3)
    by (auto simp: next_flag_def next_avg_def out_of_range_def)
qed

lemma pt1_sets_shutoff_flag_witness:
  "\<exists>s' w'. sample_ring plain_platform pt_thread 0 (pt_start, idle_world) = Inr (False, s', w') \<and>
     combAvg s' = comb_update (\<lambda>x. x) pt_thread (reading_of plain_platform pt_thread PT1 idle_world) 700 \<and>
     pressureShutoff w' = (combAvg s' > 800 \<or> combAvg s' < 300)"
proof -
  have lt: "length (items pt_ring) < capacity pt_ring" unfolding pt_facts by simp
  have off: "offer x (rings pt_start ! 0) (packet_buf pt_start) =
      Inr (None, pushed (fst x) (snd x) pt_ring, packet_buf pt_start)" for x
    unfolding pt_facts by (rule offer_room [OF pt_ring_safe lt])
  obtain s' w' where run: "sample_ring plain_platform pt_thread 0 (pt_start, idle_world) = Inr (False, s', w')"
    using sample_ring_offer [OF pt_registered pt_facts(6) off, of plain_platform] by auto
  have "rounding plain_platform = (\<lambda>x. x)" "pressureMax pt_thread = 800" "pressureMin pt_thread = 300"
    by (simp_all add: plain_platform_def pt_thread_def)
  then show ?thesis
    using pt1_sets_shutoff_flag [OF pt_registered pt_facts(6) run] run
    unfolding pt_facts by auto
qed

section \<open>The sampling period\<close>

lemma rnd_bounds:
  fixes x :: real
  assumes "\<bar>rnd x - x\<bar> \<le> x / 2 ^ 52"
  shows "x - x / 4503599627370496 \<le> rnd x" "rnd x \<le> x + x / 4503599627370496"
proof -
  have "(2 :: real) ^ 52 = 4503599627370496" by simp
  then show "x - x / 4503599627370496 \<le> rnd x" "rnd x \<le> x + x / 4503599627370496"
    using assms by (simp_all only:)
qed



end
