(* ===== verification/Resfet_Rounds.thy ===== *)
theory Resfet_Rounds
  imports Resfet_Thread
begin

text \<open>
  Many rounds of a sensor thread on rings with enough memory: every ring stands for the
  samples its sensor has delivered so far, the log and the network receive the batches of
  them, and the running average is that of the readings of PT1.

  A reading and its time stamp are functions of the hardware calls so far, and the calls
  of a thread that runs alone are known: \<open>stream\<close> is what the ADC delivers to one ring in
  so many rounds.
\<close>

section \<open>The samples of a thread\<close>

definition sampled :: "platform \<Rightarrow> SENSOR \<Rightarrow> hw_call list \<Rightarrow> sample" where
  "sampled pf s cs =
     (case spi_answer pf (cs @ take 2 (read_calls s)) [24 + channel (sensor_info s), 0, 0] of
        (b0, b1, b2) \<Rightarrow> (assemble (plain_char_signed pf) b1 b2, clock_us pf (cs @ read_calls s)))"

lemma sampled_reading:
  assumes "registered (reader th) s" and "\<not> adc_mutex w"
  shows "(reading_of pf th s w, clock_us pf (calls w @ read_calls s)) = sampled pf s (calls w)"
proof -
  obtain b0 b1 b2 where "spi_answer pf (calls w @ take 2 (read_calls s)) [24 + channel (sensor_info s), 0, 0] = (b0, b1, b2)"
    by (metis prod_cases3)
  then show ?thesis
    using read_item_registered [of "reader th" s w "spi_answer pf" b0 b1 b2] assms
    by (simp add: sampled_def reading_of_def)
qed

lemma reading_of_sampled:
  "registered (reader th) s \<Longrightarrow> \<not> adc_mutex w \<Longrightarrow> reading_of pf th s w = fst (sampled pf s (calls w))"
  using sampled_reading [of th s w pf] by (metis fst_conv)

lemma stream_reading: "\<not> plain_char_signed pf \<Longrightarrow> unat (fst (sampled pf s cs)) < 32768"
proof -
  assume u: "\<not> plain_char_signed pf"
  obtain b0 b1 b2 where "spi_answer pf (cs @ take 2 (read_calls s)) [24 + channel (sensor_info s), 0, 0] = (b0, b1, b2)"
    by (metis prod_cases3)
  moreover have "(256 * unat b1 + unat b2) div 4 < 32768"
    using unat_less(1) [of b1] unat_less(1) [of b2] by simp
  ultimately show ?thesis using u by (simp add: sampled_def unat_assemble_unsigned)
qed

definition ring_calls :: "SENSOR list \<Rightarrow> hw_call list" where
  "ring_calls ss = concat (map read_calls ss)"

text \<open>The calls when the ring at index \<open>i\<close> is read in round \<open>k\<close>, and what it delivers in \<open>n\<close> rounds.\<close>

definition calls_before :: "SENSOR list \<Rightarrow> hw_call list \<Rightarrow> nat \<Rightarrow> nat \<Rightarrow> hw_call list" where
  "calls_before ss cs k i = cs @ concat (replicate k (ring_calls ss)) @ ring_calls (take i ss)"

definition stream :: "platform \<Rightarrow> SENSOR list \<Rightarrow> hw_call list \<Rightarrow> nat \<Rightarrow> nat \<Rightarrow> sample list" where
  "stream pf ss cs i n = map (\<lambda>k. sampled pf (ss ! i) (calls_before ss cs k i)) [0..<n]"

lemma stream_Suc:
  "stream pf ss cs i (Suc n) = stream pf ss cs i n @ [sampled pf (ss ! i) (calls_before ss cs n i)]"
  by (simp add: stream_def)

lemma length_stream [simp]: "length (stream pf ss cs i n) = n"
  by (simp add: stream_def)

lemma calls_before_Suc:
  "i < length ss \<Longrightarrow> calls_before ss cs k i @ read_calls (ss ! i) = calls_before ss cs k (Suc i)"
  by (simp add: calls_before_def ring_calls_def take_Suc_conv_app_nth)

lemma calls_before_round: "calls_before ss cs k (length ss) = calls_before ss cs (Suc k) 0"
proof -
  have "concat (replicate k a) @ a = a @ concat (replicate k a)" for a :: "hw_call list"
    by (induction k) simp_all
  then show ?thesis by (simp add: calls_before_def ring_calls_def)
qed

section \<open>What a ring and its log stand for\<close>

lemma batches_snoc:
  "batches q (xs @ [x]) =
     (case batches q xs of (bs, q') \<Rightarrow> if length q' = 16 then (bs @ [q'], []) else (bs, q' @ [x]))"
  by (induction q xs rule: batches.induct) (simp_all split: prod.splits if_splits)

definition carries :: "SENSOR \<Rightarrow> sample list \<Rightarrow> circular_buffer \<Rightarrow> u8 list list \<Rightarrow> bool" where
  "carries s xs cb ps \<longleftrightarrow> ring_safe cb \<and> capacity cb = 16 \<and> sensor cb = s \<and>
     items cb = snd (batches [] xs) \<and>
     list_all2 (\<lambda>p q. length q = 16 \<and> (\<exists>old. length old = 260 \<and> p = packet s q old)) ps (fst (batches [] xs))"

lemma carries_start:
  "ring_safe cb \<Longrightarrow> capacity cb = 16 \<Longrightarrow> items cb = [] \<Longrightarrow> carries (sensor cb) [] cb []"
  by (simp add: carries_def)

lemma carries_offer:
  assumes "carries s xs cb ps" and "length b = 260"
  shows "\<exists>p cb' b'. offer x cb b = Inr (p, cb', b') \<and> length b' = 260 \<and>
     carries s (xs @ [x]) cb' (ps @ (case p of None \<Rightarrow> [] | Some q \<Rightarrow> [q])) \<and>
     (\<forall>q. p = Some q \<longrightarrow> b' = q \<and> hd q = sensor_code s)"
proof -
  let ?q = "items cb"
  have safe: "ring_safe cb" and cap: "capacity cb = 16" and sn: "sensor cb = s"
    and q: "?q = snd (batches [] xs)" using assms(1) by (simp_all add: carries_def)
  have bound: "length ?q \<le> 16" using ring.bound [OF safe] cap by simp
  show ?thesis
  proof (cases "length ?q = 16")
    case True
    let ?p = "packet s ?q b"
    have off: "offer x cb b = Inr (Some ?p, drained 16 cb, ?p)"
      using offer_full [OF safe] True cap assms(2) sn by simp
    have "ring_safe (drained 16 cb)" "items (drained 16 cb) = []"
      using ring_safe_drained [OF safe, of 16] drained_facts [of cb 16] safe True
      by (auto simp: ring_safe_def)
    moreover have "batches [] (xs @ [x]) = (fst (batches [] xs) @ [?q], [])"
      using True by (simp add: batches_snoc q split_beta)
    ultimately have "carries s (xs @ [x]) (drained 16 cb) (ps @ [?p])"
      using assms cap sn True by (auto simp: carries_def simp del: length_items intro!: list_all2_appendI)
    moreover have "length ?p = 260" "hd ?p = sensor_code s"
      using length_packet [of ?q b] True assms(2) by (simp_all add: packet_def header_bytes_def)
    ultimately show ?thesis using off by (intro exI [of _ "Some ?p"] exI [of _ "drained 16 cb"] exI [of _ ?p]) simp
  next
    case False
    then have lt: "length ?q < capacity cb" using bound cap by simp
    let ?cb' = "pushed (fst x) (snd x) cb"
    have "ring_safe ?cb'" "items ?cb' = ?q @ [x]"
      using ring_safe_push [OF safe, of "fst x" "snd x"] lt by simp_all
    moreover have "batches [] (xs @ [x]) = (fst (batches [] xs), ?q @ [x])"
      using False by (simp add: batches_snoc q split_beta)
    ultimately have "carries s (xs @ [x]) ?cb' ps"
      using assms(1) cap sn by (simp add: carries_def)
    then show ?thesis
      using offer_room [OF safe lt, of x b] assms(2)
      by (intro exI [of _ None] exI [of _ ?cb'] exI [of _ b]) simp
  qed
qed

lemma carries_decode:
  assumes "carries s xs cb ps" and "\<forall>x \<in> set xs. unat (fst x) < 32768"
  shows "decode_log (concat ps) @ map (\<lambda>(r, t). (int (unat r), unat t)) (items cb) =
     map (\<lambda>(r, t). (int (unat r), unat t)) (kept 0 xs)"
proof -
  have k: "concat (fst (batches [] xs)) @ snd (batches [] xs) = kept 0 xs"
    using batches_kept [of "[]" xs] by simp
  then have "set (concat (fst (batches [] xs))) \<subseteq> set xs"
    using kept_set [of 0 xs] by (metis Un_subset_iff set_append)
  moreover have "list_all2 (\<lambda>p q. length q = 16 \<and> (\<exists>old. length old = 260 \<and> p = packet s q old))
      ps (fst (batches [] xs))"
    using assms(1) by (simp add: carries_def)
  ultimately have "decode_log (concat ps) = map (\<lambda>(r, t). (int (unat r), unat t)) (concat (fst (batches [] xs)))"
    using decode_batches assms(2) by blast
  moreover have "items cb = snd (batches [] xs)" using assms(1) by (simp add: carries_def)
  ultimately show ?thesis by (simp flip: map_append k)
qed

lemma carries_logged:
  assumes "carries s xs cb ps" and "\<forall>x \<in> set xs. unat (fst x) < 32768"
  shows "\<exists>ys. kept 0 xs = ys @ items cb \<and> decode_log (concat ps) = map (\<lambda>(r, t). (int (unat r), unat t)) ys"
proof (intro exI conjI)
  show "kept 0 xs = concat (fst (batches [] xs)) @ items cb"
    using batches_kept [of "[]" xs] assms(1) by (simp add: carries_def)
  then show "decode_log (concat ps) = map (\<lambda>(r, t). (int (unat r), unat t)) (concat (fst (batches [] xs)))"
    using carries_decode [OF assms] by simp
qed

section \<open>The state of a thread between two passes of its loop\<close>

text \<open>How many samples the ring at index \<open>i\<close> has been offered when \<open>n\<close> rounds are over and the
  first \<open>j\<close> rings of the next have been served.\<close>

definition passes :: "nat \<Rightarrow> nat \<Rightarrow> nat \<Rightarrow> nat" where
  "passes n j i = (if i < j then Suc n else n)"

text \<open>The packets of one sensor among those sent.\<close>

definition packets_of :: "SENSOR \<Rightarrow> u8 list list \<Rightarrow> u8 list list" where
  "packets_of s = filter (\<lambda>p. hd p = sensor_code s)"

definition shutoff_seen :: "platform \<Rightarrow> PeriodicThread \<Rightarrow> sample list \<Rightarrow> sampler \<times> world \<Rightarrow> bool" where
  "shutoff_seen pf th xs sw \<longleftrightarrow>
     combAvg (fst sw) = fold (comb_update (rounding pf) th) (map fst xs) 700 \<and>
     (xs \<noteq> [] \<longrightarrow> pressureShutoff (snd sw) = out_of_range th (combAvg (fst sw)))"

definition serving :: "platform \<Rightarrow> PeriodicThread \<Rightarrow> SENSOR list \<Rightarrow> hw_call list \<Rightarrow> nat \<Rightarrow> nat \<Rightarrow> sampler \<times> world \<Rightarrow> bool" where
  "serving pf th ss cs n j sw \<longleftrightarrow>
     length (rings (fst sw)) = length ss \<and> length (logs (fst sw)) = length ss \<and>
     length (packet_buf (fst sw)) = 260 \<and> \<not> adc_mutex (snd sw) \<and>
     calls (snd sw) = calls_before ss cs n j \<and>
     (\<forall>i < length ss. carries (ss ! i) (stream pf ss cs i (passes n j i)) (rings (fst sw) ! i)
        (packets_of (ss ! i) (sent (fst sw))) \<and>
        logs (fst sw) ! i = concat (packets_of (ss ! i) (sent (fst sw))) \<and>
        (ss ! i = PT1 \<longrightarrow> shutoff_seen pf th (stream pf ss cs i (passes n j i)) sw))"

lemma serving_round: "serving pf th ss cs n (length ss) sw \<longleftrightarrow> serving pf th ss cs (Suc n) 0 sw"
  by (auto simp: serving_def passes_def calls_before_round)

text \<open>A thread that never ends: it has a usable socket, and its sensors are registered.\<close>

definition thread_ready :: "PeriodicThread \<Rightarrow> SENSOR list \<Rightarrow> bool" where
  "thread_ready th ss \<longleftrightarrow> distinct ss \<and> (\<forall>s \<in> set ss. registered (reader th) s) \<and>
     sock th \<noteq> None \<and> sock th \<noteq> Some (- 1)"

lemma sample_ring_sent:
  assumes "sample_ring pf th i (s, w) = Inr (False, s', w')"
    and "offer (reading_of pf th (sensor (rings s ! i)) w, clock_us pf (calls w @ read_calls (sensor (rings s ! i))))
           (rings s ! i) (packet_buf s) = Inr (p, cb', b')"
    and "registered (reader th) (sensor (rings s ! i))" and "\<not> adc_mutex w"
  shows "sent s' = sent s @ (case p of None \<Rightarrow> [] | Some q \<Rightarrow> [q])"
proof -
  obtain sn where sn: "sensor (rings s ! i) = sn" by blast
  obtain r w1 where read: "read_item (plain_char_signed pf) (spi_answer pf) (reader th) (sensor_code sn) w = Inr (r, w1)"
    and w1: "calls w1 = calls w @ read_calls sn"
    using read_registered [OF assms(3,4)] sn by blast
  have "reading_of pf th sn w = r" by (simp add: reading_of_def read)
  then have "offer (r, clock_us pf (calls w @ read_calls sn)) (rings s ! i) (packet_buf s) = Inr (p, cb', b')"
    using assms(2) by (simp only: sn)
  then show ?thesis
    using assms(1) w1 unfolding sample_ring_def Let_def fst_conv snd_conv sn read
    by (cases "sn = PT1"; cases p; cases "sock th"; cases "sock th = Some (- 1)") auto
qed

text \<open>The rings, the packets and the logs of a thread that has offered the samples \<open>xs i\<close> to its ring
  \<open>i\<close>, whenever it did so.\<close>

definition recording :: "SENSOR list \<Rightarrow> (nat \<Rightarrow> sample list) \<Rightarrow> sampler \<Rightarrow> bool" where
  "recording ss xs s \<longleftrightarrow>
     length (rings s) = length ss \<and> length (logs s) = length ss \<and> length (packet_buf s) = 260 \<and>
     (\<forall>i < length ss. carries (ss ! i) (xs i) (rings s ! i) (packets_of (ss ! i) (sent s)) \<and>
        logs s ! i = concat (packets_of (ss ! i) (sent s)))"

lemma serving_recording:
  "serving pf th ss cs n j (s, w) \<longleftrightarrow>
     recording ss (\<lambda>i. stream pf ss cs i (passes n j i)) s \<and> \<not> adc_mutex w \<and> calls w = calls_before ss cs n j \<and>
     (\<forall>i < length ss. ss ! i = PT1 \<longrightarrow> shutoff_seen pf th (stream pf ss cs i (passes n j i)) (s, w))"
  by (auto simp: serving_def recording_def)

text \<open>One pass, as far as its own ring goes: \<open>p\<close> is the packet it hands out, if any.\<close>

lemma recording_pass:
  assumes "recording ss xs s" and "thread_ready th ss" and "\<not> adc_mutex w" and "j < length ss"
  shows "\<exists>p cb' s' w'. sample_ring pf th j (s, w) = Inr (False, s', w') \<and>
     \<not> adc_mutex w' \<and> calls w' = calls w @ read_calls (ss ! j) \<and> length (packet_buf s') = 260 \<and>
     rings s' = (rings s)[j := cb'] \<and> sent s' = sent s @ (case p of None \<Rightarrow> [] | Some q \<Rightarrow> [q]) \<and>
     logs s' = (case p of None \<Rightarrow> logs s | Some q \<Rightarrow> (logs s)[j := logs s ! j @ q]) \<and>
     (\<forall>q. p = Some q \<longrightarrow> hd q = sensor_code (ss ! j)) \<and>
     carries (ss ! j) (xs j @ [sampled pf (ss ! j) (calls w)]) cb'
       (packets_of (ss ! j) (sent s) @ (case p of None \<Rightarrow> [] | Some q \<Rightarrow> [q])) \<and>
     pressureShutoff w' = next_flag pf th (ss ! j) w (combAvg s) \<and> combAvg s' = next_avg pf th (ss ! j) w (combAvg s)"
proof -
  let ?sn = "ss ! j"
  have buf: "length (packet_buf s) = 260" and car: "carries ?sn (xs j) (rings s ! j) (packets_of ?sn (sent s))"
    using assms(1,4) by (simp_all add: recording_def)
  have reg: "registered (reader th) ?sn" and so: "sock th \<noteq> None" "sock th \<noteq> Some (- 1)"
    using assms(2,4) by (simp_all add: thread_ready_def)
  have sn: "sensor (rings s ! j) = ?sn" using car by (simp add: carries_def)
  then have reg': "registered (reader th) (sensor (rings s ! j))" using reg by simp
  let ?x = "sampled pf ?sn (calls w)"
  have x: "(reading_of pf th (sensor (rings s ! j)) w, clock_us pf (calls w @ read_calls (sensor (rings s ! j)))) = ?x"
    unfolding sn by (rule sampled_reading [OF reg assms(3)])
  obtain p cb' b' where off: "offer ?x (rings s ! j) (packet_buf s) = Inr (p, cb', b')" "length b' = 260"
    and new: "carries ?sn (xs j @ [?x]) cb' (packets_of ?sn (sent s) @ (case p of None \<Rightarrow> [] | Some q \<Rightarrow> [q]))"
    and q: "\<forall>q. p = Some q \<longrightarrow> hd q = sensor_code ?sn"
    using carries_offer [OF car buf, of ?x] by blast
  note one = sample_ring_offer [OF reg' assms(3) off(1) [folded x], unfolded sn]
  obtain s' w' where run: "sample_ring pf th j (s, w) = Inr (False, s', w')"
    and s': "\<not> adc_mutex w'" "calls w' = calls w @ read_calls ?sn"
      "pressureShutoff w' = next_flag pf th ?sn w (combAvg s)" "combAvg s' = next_avg pf th ?sn w (combAvg s)"
      "rings s' = (rings s)[j := cb']" "packet_buf s' = (if p = None then packet_buf s else b')"
      "logs s' = (case p of None \<Rightarrow> logs s | Some q \<Rightarrow> (logs s)[j := logs s ! j @ q])"
    using one so by auto
  have "sent s' = sent s @ (case p of None \<Rightarrow> [] | Some q \<Rightarrow> [q])"
    by (rule sample_ring_sent [OF run off(1) [folded x] reg' assms(3)])
  moreover have "length (packet_buf s') = 260" using s'(6) buf off(2) by simp
  ultimately show ?thesis
    using run s' new q
    by (intro exI [of _ p] exI [of _ cb'] exI [of _ s'] exI [of _ w'] conjI) simp_all
qed

lemma packets_of_pass:
  assumes "distinct ss" and "i < length ss" and "j < length ss" and "\<forall>q. p = Some q \<longrightarrow> hd q = sensor_code (ss ! j)"
  shows "packets_of (ss ! i) (out @ (case p of None \<Rightarrow> [] | Some q \<Rightarrow> [q])) =
     packets_of (ss ! i) out @ (if i = j then case p of None \<Rightarrow> [] | Some q \<Rightarrow> [q] else [])"
  using assms nth_eq_iff_index_eq [OF assms(1-3)] by (cases p) (auto simp: packets_of_def)

lemma recording_ring:
  assumes "recording ss xs s" and "thread_ready th ss" and "\<not> adc_mutex w" and "j < length ss"
  shows "\<exists>s' w'. sample_ring pf th j (s, w) = Inr (False, s', w') \<and>
     recording ss (xs(j := xs j @ [sampled pf (ss ! j) (calls w)])) s' \<and>
     \<not> adc_mutex w' \<and> calls w' = calls w @ read_calls (ss ! j) \<and>
     pressureShutoff w' = next_flag pf th (ss ! j) w (combAvg s) \<and> combAvg s' = next_avg pf th (ss ! j) w (combAvg s)"
proof -
  let ?xs = "xs(j := xs j @ [sampled pf (ss ! j) (calls w)])"
  have inv: "length (rings s) = length ss" "length (logs s) = length ss"
    and ring: "\<And>i. i < length ss \<Longrightarrow> carries (ss ! i) (xs i) (rings s ! i) (packets_of (ss ! i) (sent s)) \<and>
        logs s ! i = concat (packets_of (ss ! i) (sent s))"
    using assms(1) by (simp_all add: recording_def)
  have dist: "distinct ss" using assms(2) by (simp add: thread_ready_def)
  obtain p cb' s' w' where run: "sample_ring pf th j (s, w) = Inr (False, s', w')"
    and w': "\<not> adc_mutex w'" "calls w' = calls w @ read_calls (ss ! j)"
      "pressureShutoff w' = next_flag pf th (ss ! j) w (combAvg s)" "combAvg s' = next_avg pf th (ss ! j) w (combAvg s)"
    and s': "length (packet_buf s') = 260" "rings s' = (rings s)[j := cb']"
      "sent s' = sent s @ (case p of None \<Rightarrow> [] | Some q \<Rightarrow> [q])"
      "logs s' = (case p of None \<Rightarrow> logs s | Some q \<Rightarrow> (logs s)[j := logs s ! j @ q])"
    and q: "\<forall>q. p = Some q \<longrightarrow> hd q = sensor_code (ss ! j)"
    and car: "carries (ss ! j) (?xs j) cb' (packets_of (ss ! j) (sent s) @ (case p of None \<Rightarrow> [] | Some q \<Rightarrow> [q]))"
    using recording_pass [OF assms] unfolding fun_upd_same by blast
  have "recording ss ?xs s'"
    unfolding recording_def
  proof (intro conjI allI impI)
    fix i
    assume i: "i < length ss"
    note own = packets_of_pass [OF dist i assms(4) q, of "sent s", folded s'(3)]
    show "carries (ss ! i) (?xs i) (rings s' ! i) (packets_of (ss ! i) (sent s'))"
      using i car ring [OF i] own s'(2) inv(1) by (cases "i = j") simp_all
    show "logs s' ! i = concat (packets_of (ss ! i) (sent s'))"
      using i ring [OF i] own s'(4) inv(2) by (cases "i = j"; cases p) simp_all
  qed (use inv s' in \<open>simp_all split: option.splits\<close>)
  then show ?thesis using run w' by blast
qed

text \<open>The running average is that of the readings of PT1 before and after the pass.\<close>

lemma shutoff_seen_pass:
  assumes "serving pf th ss cs n j (s, w)" and "thread_ready th ss" and "j < length ss" and "i < length ss" and "ss ! i = PT1"
    and "pressureShutoff w' = next_flag pf th (ss ! j) w (combAvg s)" and "combAvg s' = next_avg pf th (ss ! j) w (combAvg s)"
  shows "shutoff_seen pf th (stream pf ss cs i (passes n (Suc j) i)) (s', w')"
proof -
  have seen: "shutoff_seen pf th (stream pf ss cs i (passes n j i)) (s, w)"
    and w: "\<not> adc_mutex w" "calls w = calls_before ss cs n j"
    using assms(1,4,5) by (simp_all add: serving_def)
  have reg: "registered (reader th) (ss ! j)" and dist: "distinct ss"
    using assms(2,3) by (simp_all add: thread_ready_def)
  show ?thesis
  proof (cases "i = j")
    case True
    then have "ss ! j = PT1" using assms(5) by simp
    then show ?thesis
      using seen reading_of_sampled [OF reg w(1), of pf] w(2) assms(6,7) True
      by (simp add: shutoff_seen_def next_flag_def next_avg_def passes_def stream_Suc)
  next
    case False
    then have "ss ! j \<noteq> PT1" using dist assms(3-5) nth_eq_iff_index_eq by metis
    then show ?thesis
      using seen assms(6,7) False by (simp add: shutoff_seen_def next_flag_def next_avg_def passes_def less_Suc_eq)
  qed
qed

lemma serving_ring:
  assumes "serving pf th ss cs n j (s, w)" and "thread_ready th ss" and "j < length ss"
  shows "\<exists>s' w'. sample_ring pf th j (s, w) = Inr (False, s', w') \<and> serving pf th ss cs n (Suc j) (s', w')"
proof -
  let ?xs = "\<lambda>j i. stream pf ss cs i (passes n j i)"
  have rec: "recording ss (?xs j) s" and w: "\<not> adc_mutex w" "calls w = calls_before ss cs n j"
    using assms(1) by (simp_all add: serving_recording)
  obtain s' w' where run: "sample_ring pf th j (s, w) = Inr (False, s', w')"
    and new: "recording ss ((?xs j)(j := ?xs j j @ [sampled pf (ss ! j) (calls w)])) s'"
    and w': "\<not> adc_mutex w'" "calls w' = calls w @ read_calls (ss ! j)"
    and avg: "pressureShutoff w' = next_flag pf th (ss ! j) w (combAvg s)" "combAvg s' = next_avg pf th (ss ! j) w (combAvg s)"
    using recording_ring [OF rec assms(2) w(1) assms(3)] by blast
  have "(?xs j)(j := ?xs j j @ [sampled pf (ss ! j) (calls w)]) = ?xs (Suc j)"
    using w(2) by (auto simp: passes_def less_Suc_eq stream_Suc)
  then have "serving pf th ss cs n (Suc j) (s', w')"
    unfolding serving_recording using new w' w(2) calls_before_Suc [OF assms(3)] shutoff_seen_pass [OF assms _ _ avg] by simp
  then show ?thesis using run by blast
qed

lemma serving_rings:
  assumes "serving pf th ss cs n j sw" and "thread_ready th ss" and "j \<le> length ss"
  shows "\<exists>sw'. sample_rings pf th [j..<length ss] sw = Inr (False, sw') \<and> serving pf th ss cs n (length ss) sw'"
  using assms(1,3)
proof (induction "length ss - j" arbitrary: j sw)
  case 0
  then show ?case by simp
next
  case (Suc d)
  then have j: "j < length ss" by simp
  obtain s w where sw: "sw = (s, w)" by (cases sw)
  obtain s' w' where one: "sample_ring pf th j (s, w) = Inr (False, s', w')" "serving pf th ss cs n (Suc j) (s', w')"
    using serving_ring [OF _ assms(2) j] Suc.prems sw by blast
  have "d = length ss - Suc j" using Suc.hyps(2) by simp
  from Suc.hyps(1) [OF this one(2)] j
  obtain sw' where "sample_rings pf th [Suc j..<length ss] (s', w') = Inr (False, sw')"
    "serving pf th ss cs n (length ss) sw'" by (metis Suc_leI)
  then show ?case using one(1) sw j by (simp add: upt_conv_Cons)
qed

lemma serving_rounds:
  assumes "serving pf th ss cs k 0 sw" and "thread_ready th ss"
  shows "\<exists>sw'. sample_rounds pf th n sw = Inr (False, sw') \<and> serving pf th ss cs (k + n) 0 sw'"
  using assms(1)
proof (induction n arbitrary: k sw)
  case 0
  then show ?case by simp
next
  case (Suc n)
  obtain sw1 where "sample_rings pf th [0..<length ss] sw = Inr (False, sw1)" "serving pf th ss cs (Suc k) 0 sw1"
    using serving_rings [OF Suc.prems assms(2)] serving_round by blast
  moreover have "length (rings (fst sw)) = length ss" using Suc.prems by (simp add: serving_def)
  ultimately show ?case
    using Suc.IH [of "Suc k" sw1] by (simp add: sample_round_def)
qed

lemma serving_start:
  assumes "buffers th = map (\<lambda>s. new_circular_buffer s 16 (mem s)) ss" and "\<forall>s \<in> set ss. 17 \<le> length (mem s)"
    and "length b = 260" and "\<not> adc_mutex w"
  shows "serving pf th ss (calls w) 0 0 (thread_start th b, w)"
proof -
  have "carries s [] (new_circular_buffer s 16 (mem s)) []" if "s \<in> set ss" for s
  proof -
    have "ring_safe (new_circular_buffer s 16 (mem s))"
      using ring_safe_new [of 16 "mem s" s] assms(2) that by fastforce
    from carries_start [OF this] show ?thesis by (simp add: ring_simps)
  qed
  then show ?thesis
    using assms by (simp add: serving_def thread_start_def passes_def stream_def calls_before_def ring_calls_def
        packets_of_def shutoff_seen_def)
qed

lemma constructed_thread:
  assumes "new_PeriodicThread rnd mem freq ss pmax pmin slope yint (Some fd) = Inr th"
    and "NUM_SENSORS \<notin> set ss" and "distinct ss" and "fd \<noteq> - 1"
  shows "thread_ready th ss" and "buffers th = map (\<lambda>s. new_circular_buffer s 16 (mem s)) ss"
    and "pressureMax th = pmax" and "pressureMin th = pmin"
    and "pressureSlope th = slope" and "pressureYint th = yint"
proof -
  obtain rd where rd: "register_sensors ss new_adc_reader = Inr rd"
    and reg: "\<And>s. s \<in> set ss \<Longrightarrow> registered rd s"
    by (rule register_sensors_all [OF assms(2)]) (rule that)
  have "Inr th = (Inr \<lparr>reader = rd, buffers = map (\<lambda>s. new_circular_buffer s 16 (mem s)) ss,
      sleep_time_ns = sleep_time rnd freq, num_sensors = length ss, pressureMax = pmax,
      pressureMin = pmin, pressureSlope = slope, pressureYint = yint, sock = Some fd\<rparr> :: ub + PeriodicThread)"
    using assms(1) by (simp only: new_PeriodicThread_def rd sum.case)
  then show "thread_ready th ss" "buffers th = map (\<lambda>s. new_circular_buffer s 16 (mem s)) ss"
    "pressureMax th = pmax" "pressureMin th = pmin" "pressureSlope th = slope" "pressureYint th = yint"
    using reg assms(3,4) by (simp_all add: thread_ready_def)
qed

section \<open>Properties\<close>


text \<open>A thread for PT1 and PT2 whose rings have a cell to spare, and what it reads from an ADC that
  always gives the same answer.\<close>

lemma pair_thread:
  obtains th where "new_PeriodicThread (\<lambda>x. x) (\<lambda>_. replicate 17 blank_item) 500 [PT1, PT2]
     800 300 (- 3 / 10) (11081 / 10) (Some 5) = Inr th"
proof -
  have "NUM_SENSORS \<notin> set [PT1, PT2]" by simp
  then obtain rd where "register_sensors [PT1, PT2] new_adc_reader = Inr rd"
    by (rule register_sensors_all) (rule that)
  then show ?thesis using that by (simp add: new_PeriodicThread_def)
qed

lemma plain_stream:
  "stream plain_platform [PT1, PT2] [] 0 n = map (\<lambda>k. (480, of_nat (8 * k + 4))) [0..<n]"
proof -
  have "length (concat (replicate k (ring_calls [PT1, PT2]))) = 8 * k" for k
    by (induction k) (simp_all add: ring_calls_def read_calls_def)
  moreover have "assemble False 7 129 = 480"
    by (simp add: word_unat_eq_iff unat_assemble_unsigned)
  ultimately show ?thesis
    by (simp add: stream_def sampled_def plain_platform_def calls_before_def read_calls_def ring_calls_def)
qed




end
