(* ===== verification/Resfet_Config.thy ===== *)
theory Resfet_Config
  imports Resfet_Base Complex_Main
begin

text \<open>
  The config-file parser (include/config/config.hpp, src/config/config.cpp):
  \<open>readFrom\<close> with the parts of \<open>istream::getline\<close> and \<open>sscanf\<close> it relies on, the
  lookup, and the typed getters.

  A file is its contents, or \<open>None\<close> when it cannot be opened. \<open>readFrom\<close> may run
  forever, so it returns an option, \<open>None\<close> for not returning; a write past one of the
  64-byte buffers of the parser is \<open>Inl OutOfBounds\<close>. The map is a map of maps, as in the
  code, and a key holds the list of its values in file order.
\<close>

section \<open>Lines: istream::getline\<close>

definition newline :: char where "newline = CHR 0x0A"

definition MAX_LINE_LENGTH :: nat where "MAX_LINE_LENGTH = 128"
definition MAX_CONFIG_LENGTH :: nat where "MAX_CONFIG_LENGTH = 64"

record istream =
  rest :: string
  eofbit :: bool
  failbit :: bool

text \<open>Up to \<open>n - 1\<close> characters before a newline, which is removed. Reading a stream that is
  not good, reading no character at the end, and a line that does not fit set
  \<open>failbit\<close>; the buffer holds what was read, NUL-terminated.\<close>

definition getline :: "nat \<Rightarrow> istream \<Rightarrow> string \<times> istream" where
  "getline n st =
     (if eofbit st \<or> failbit st then ([], st\<lparr>failbit := True\<rparr>)
      else
        let line = takeWhile (\<lambda>c. c \<noteq> newline) (take (n - 1) (rest st)) in
        case drop (length line) (rest st) of
          [] \<Rightarrow> (line, \<lparr>rest = [], eofbit = True, failbit = (line = [])\<rparr>)
        | c # cs \<Rightarrow>
            if c = newline then (line, st\<lparr>rest := cs\<rparr>)
            else (line, st\<lparr>rest := c # cs, failbit := True\<rparr>))"

section \<open>Matching a line: sscanf\<close>

definition is_space :: "char \<Rightarrow> bool" where
  "is_space c \<longleftrightarrow> c \<in> {CHR '' '', CHR 0x09, CHR 0x0A, CHR 0x0B, CHR 0x0C, CHR 0x0D}"

text \<open>A conversion of at most \<open>n\<close> characters satisfying \<open>p\<close>, and at least one.\<close>

definition scan_set :: "nat \<Rightarrow> (char \<Rightarrow> bool) \<Rightarrow> string \<Rightarrow> (string \<times> string) option" where
  "scan_set n p s =
     (let tok = takeWhile p (take n s) in
      if tok = [] then None else Some (tok, drop (length tok) s))"

text \<open>Storing a token and its NUL into a buffer of \<open>MAX_CONFIG_LENGTH\<close> bytes.\<close>

definition store_token :: "string \<Rightarrow> ub + string" where
  "store_token tok = (if length tok + 1 \<le> MAX_CONFIG_LENGTH then Inr tok else Inl OutOfBounds)"

text \<open>The format \<open>[%64[^]]]\<close>: the conversion counts whether or not the last bracket of the
  format matches.\<close>

definition match_header :: "string \<Rightarrow> ub + string option" where
  "match_header s =
     (case s of
        [] \<Rightarrow> Inr None
      | c # cs \<Rightarrow>
          if c \<noteq> CHR ''['' then Inr None
          else (case scan_set MAX_CONFIG_LENGTH (\<lambda>c. c \<noteq> CHR '']'') cs of
                  None \<Rightarrow> Inr None
                | Some (tok, _) \<Rightarrow>
                    (case store_token tok of Inl e \<Rightarrow> Inl e | Inr h \<Rightarrow> Inr (Some h))))"

text \<open>The format \<open>%64[^=]=%64s\<close>, which must assign both.\<close>

definition match_key_value :: "string \<Rightarrow> ub + (string \<times> string) option" where
  "match_key_value s =
     (case scan_set MAX_CONFIG_LENGTH (\<lambda>c. c \<noteq> CHR ''='') s of
        None \<Rightarrow> Inr None
      | Some (ktok, r) \<Rightarrow>
          (case store_token ktok of
             Inl e \<Rightarrow> Inl e
           | Inr key \<Rightarrow>
               (case r of
                  [] \<Rightarrow> Inr None
                | c # cs \<Rightarrow>
                    if c \<noteq> CHR ''='' then Inr None
                    else (case scan_set MAX_CONFIG_LENGTH (\<lambda>c. \<not> is_space c)
                                 (dropWhile is_space cs) of
                            None \<Rightarrow> Inr None
                          | Some (vtok, _) \<Rightarrow>
                              (case store_token vtok of
                                 Inl e \<Rightarrow> Inl e
                               | Inr val \<Rightarrow> Inr (Some (key, val)))))))"

section \<open>The map\<close>

type_synonym config_map = "string \<rightharpoonup> (string \<rightharpoonup> string list)"

text \<open>\<open>operator[]\<close> of the outer map, which inserts an empty section.\<close>

definition section_of :: "config_map \<Rightarrow> string \<Rightarrow> (string \<rightharpoonup> string list)" where
  "section_of m sec = (case m sec of None \<Rightarrow> Map.empty | Some km \<Rightarrow> km)"

definition isPresent :: "string option \<Rightarrow> string option \<Rightarrow> config_map \<Rightarrow> bool" where
  "isPresent sec key m =
     (case sec of None \<Rightarrow> False | Some s \<Rightarrow>
       (case key of None \<Rightarrow> False | Some k \<Rightarrow>
         (case m s of None \<Rightarrow> False | Some km \<Rightarrow> km k \<noteq> None)))"

definition push_value :: "string \<Rightarrow> string \<Rightarrow> string \<Rightarrow> config_map \<Rightarrow> config_map" where
  "push_value sec key val m =
     (let m1 = (if \<not> isPresent (Some sec) (Some key) m
                then m(sec \<mapsto> (section_of m sec)(key \<mapsto> [])) else m);
          km = section_of m1 sec;
          vs = (case km key of None \<Rightarrow> [] | Some vs \<Rightarrow> vs)
      in m1(sec \<mapsto> km(key \<mapsto> vs @ [val])))"

section \<open>readFrom\<close>

definition skipped :: "string \<Rightarrow> bool" where
  "skipped line =
     (case line of [] \<Rightarrow> True
      | c # _ \<Rightarrow> c \<in> {CHR ''#'', CHR '';'', CHR 0x0D, newline, NUL})"

text \<open>One parsed line: the new current section and map, or \<open>None\<close> for a malformed line.\<close>

definition parse_line :: "string \<Rightarrow> string \<Rightarrow> config_map \<Rightarrow> ub + (string \<times> config_map) option" where
  "parse_line line sec m =
     (case match_header (c_str line) of
        Inl e \<Rightarrow> Inl e
      | Inr (Some h) \<Rightarrow> Inr (Some (h, m))
      | Inr None \<Rightarrow>
          (case match_key_value (c_str line) of
             Inl e \<Rightarrow> Inl e
           | Inr (Some (key, val)) \<Rightarrow> Inr (Some (sec, push_value sec key val m))
           | Inr None \<Rightarrow> Inr None))"

partial_function (option) readFrom_loop ::
  "istream \<Rightarrow> string \<Rightarrow> config_map \<Rightarrow> (ub + u8 \<times> config_map) option" where
  "readFrom_loop st sec m =
     (if eofbit st then Some (Inr (0, m))
      else
        let (line, st') = getline MAX_LINE_LENGTH st in
        if skipped line then readFrom_loop st' sec m
        else if failbit st' then Some (Inr (1, Map.empty))
        else (case parse_line line sec m of
                Inl e \<Rightarrow> Some (Inl e)
              | Inr None \<Rightarrow> Some (Inr (1, Map.empty))
              | Inr (Some sm) \<Rightarrow> readFrom_loop st' (fst sm) (snd sm)))"

definition open_stream :: "string \<Rightarrow> istream" where
  "open_stream contents = \<lparr>rest = contents, eofbit = False, failbit = False\<rparr>"

definition readFrom :: "string option \<Rightarrow> (ub + u8 \<times> config_map) option" where
  "readFrom file =
     (case file of None \<Rightarrow> Some (Inr (1, Map.empty))
      | Some contents \<Rightarrow> readFrom_loop (open_stream contents) [] Map.empty)"

definition writeTo :: "string \<Rightarrow> u8" where
  "writeTo filename = 1"

section \<open>Getters\<close>

text \<open>\<open>strncpy\<close>: at most \<open>n\<close> characters, padded with NULs up to \<open>n\<close>.\<close>

definition strncpy :: "char list \<Rightarrow> string \<Rightarrow> nat \<Rightarrow> char list" where
  "strncpy dest s n =
     take n s @ replicate (n - length s) NUL @ drop n dest"

definition first_value :: "config_map \<Rightarrow> string \<Rightarrow> string \<Rightarrow> string" where
  "first_value m sec key =
     (case section_of m sec key of Some (v # _) \<Rightarrow> v | _ \<Rightarrow> [])"

definition getString ::
  "config_map \<Rightarrow> string \<Rightarrow> string \<Rightarrow> char list \<Rightarrow> nat \<Rightarrow> u8 \<times> char list" where
  "getString m sec key dest n =
     (if \<not> isPresent (Some sec) (Some key) m then (1, dest)
      else (0, strncpy dest (first_value m sec key) n))"

text \<open>\<open>atoi\<close>: white space, a sign, digits up to the first other character.\<close>

definition atoi :: "string \<Rightarrow> int" where
  "atoi s =
     (case dropWhile is_space s of
        [] \<Rightarrow> 0
      | c # cs \<Rightarrow>
          if c = CHR ''-'' then - int (digits_value cs)
          else if c = CHR ''+'' then int (digits_value cs)
          else int (digits_value (c # cs)))"

definition getInt :: "config_map \<Rightarrow> string \<Rightarrow> string \<Rightarrow> u32 \<Rightarrow> u8 \<times> u32" where
  "getInt m sec key dest =
     (if \<not> isPresent (Some sec) (Some key) m then (1, dest)
      else (0, word_of_int (atoi (first_value m sec key))))"

text \<open>The conversion of \<open>atof\<close> is the parameter \<open>atof\<close>: correctly rounded decimal to
  binary conversion is the C library's.\<close>

definition getDouble ::
  "(string \<Rightarrow> real) \<Rightarrow> config_map \<Rightarrow> string \<Rightarrow> string \<Rightarrow> real \<Rightarrow> u8 \<times> real" where
  "getDouble atof m sec key dest =
     (if \<not> isPresent (Some sec) (Some key) m then (1, dest)
      else (0, atof (first_value m sec key)))"

text \<open>\<open>temp\<close> is the local of \<open>getBool\<close>, which nothing initialises.\<close>

definition getBool :: "u32 \<Rightarrow> config_map \<Rightarrow> string \<Rightarrow> string \<Rightarrow> u8 \<times> bool" where
  "getBool temp m sec key = (0, snd (getInt m sec key temp) \<noteq> 0)"

definition getVector ::
  "config_map \<Rightarrow> string \<Rightarrow> string \<Rightarrow> u32 list \<Rightarrow> u8 \<times> u32 list" where
  "getVector m sec key dest =
     (if \<not> isPresent (Some sec) (Some key) m then (1, dest)
      else (0, dest @ map (\<lambda>s. word_of_int (atoi s))
                 (case section_of m sec key of None \<Rightarrow> [] | Some vs \<Rightarrow> vs)))"

end
