(* ===== verification/Resfet_Config_Spec.thy ===== *)
theory Resfet_Config_Spec
  imports Resfet_Config
begin

text \<open>
  What the config parser computes, line by line: a recursive specification over the
  lines of the file that \<open>readFrom\<close> is equal to on every file (not returning included),
  the interface of a map that collects the values of a key in order, and the round trip
  from a printed configuration to the getters.
\<close>

section \<open>Lines of a file\<close>

fun split_lines :: "string \<Rightarrow> string list" where
  "split_lines [] = [[]]"
| "split_lines (c # cs) =
     (if c = newline then [] # split_lines cs
      else (case split_lines cs of [] \<Rightarrow> [[c]] | l # ls \<Rightarrow> (c # l) # ls))"

lemma split_lines_newline [simp]:
  "newline \<notin> set l \<Longrightarrow> split_lines (l @ newline # cs) = l # split_lines cs"
  by (induction l) auto

lemma split_lines_last [simp]: "newline \<notin> set l \<Longrightarrow> split_lines l = [l]"
  by (induction l) auto

text \<open>The parser over the lines. A line that does not fit the line buffer ends the
  parse with an error, unless it starts like a comment: then the loop never ends.\<close>

fun parse_lines :: "string list \<Rightarrow> string \<Rightarrow> config_map \<Rightarrow> (ub + u8 \<times> config_map) option" where
  "parse_lines [] sec m = Some (Inr (0, m))"
| "parse_lines (l # ls) sec m =
     (if MAX_LINE_LENGTH \<le> length l
      then (if skipped l then None else Some (Inr (1, Map.empty)))
      else if skipped l then parse_lines ls sec m
      else (case parse_line l sec m of
              Inl e \<Rightarrow> Some (Inl e)
            | Inr None \<Rightarrow> Some (Inr (1, Map.empty))
            | Inr (Some sm) \<Rightarrow> parse_lines ls (fst sm) (snd sm)))"

section \<open>The loop and the lines\<close>

lemma open_stream_fields [simp]:
  "\<not> eofbit (open_stream s)" "\<not> failbit (open_stream s)" "rest (open_stream s) = s"
  by (simp_all add: open_stream_def)

lemma takeWhile_line: "newline \<notin> set l \<Longrightarrow> takeWhile (\<lambda>c. c \<noteq> newline) (l @ newline # cs) = l"
  by (subst takeWhile_append2) auto

lemma getline_fits:
  assumes "newline \<notin> set l" and "length l < n"
  shows "getline n (open_stream (l @ newline # cs)) = (l, open_stream cs)"
proof -
  have "takeWhile (\<lambda>c. c \<noteq> newline) (take (n - 1) (l @ newline # cs)) = l"
    using assms by (cases "n - 1 - length l") (auto simp: takeWhile_line takeWhile_eq_all_conv)
  then show ?thesis by (simp add: getline_def open_stream_def)
qed

lemma getline_last:
  assumes "newline \<notin> set l" and "length l < n"
  shows "getline n (open_stream l) = (l, \<lparr>rest = [], eofbit = True, failbit = (l = [])\<rparr>)"
proof -
  have "takeWhile (\<lambda>c. c \<noteq> newline) (take (n - 1) l) = l"
    using assms by (auto simp: takeWhile_eq_all_conv)
  then show ?thesis by (simp add: getline_def open_stream_def)
qed

lemma getline_overlong:
  assumes "newline \<notin> set l" and "n \<le> length l" and "0 < n"
  shows "\<exists>r. getline n (open_stream (l @ cs)) =
     (take (n - 1) l, \<lparr>rest = r, eofbit = False, failbit = True\<rparr>)"
proof -
  have tw: "takeWhile (\<lambda>c. c \<noteq> newline) (take (n - 1) (l @ cs)) = take (n - 1) l"
    using assms by (auto simp: takeWhile_eq_all_conv dest: in_set_takeD)
  have "drop (n - 1) (l @ cs) = l ! (n - 1) # drop n (l @ cs)"
    using assms by (simp add: Cons_nth_drop_Suc [symmetric])
  moreover have "l ! (n - 1) \<in> set l"
    using assms by (intro nth_mem) simp
  then have "l ! (n - 1) \<noteq> newline"
    using assms(1) by metis
  ultimately show ?thesis
    using assms tw by (simp add: getline_def open_stream_def Let_def del: takeWhile_eq_all_conv)
qed

text \<open>A stream that failed before its end is never at its end, and every further line is
  empty, so the loop skips for ever.\<close>

lemma getline_stuck: "failbit st \<Longrightarrow> getline n st = ([], st)"
  by (simp add: getline_def)

lemma readFrom_loop_stuck:
  assumes "failbit st" and "\<not> eofbit st"
  shows "readFrom_loop st sec m = None"
proof (cases "readFrom_loop st sec m")
  case (Some r)
  have "\<not> (failbit st \<and> \<not> eofbit st)"
  proof (rule readFrom_loop.raw_induct [where P = "\<lambda>st sec m r. \<not> (failbit st \<and> \<not> eofbit st)", OF _ Some])
    fix f :: "istream \<Rightarrow> string \<Rightarrow> config_map \<Rightarrow> (ub + u8 \<times> config_map) option"
    fix st sec m r
    assume IH: "\<And>st sec m r. f st sec m = Some r \<Longrightarrow> \<not> (failbit st \<and> \<not> eofbit st)"
      and body: "(if eofbit st then Some (Inr (0, m))
      else let (line, st') = getline MAX_LINE_LENGTH st in
        if skipped line then f st' sec m
        else if failbit st' then Some (Inr (1, Map.empty))
        else (case parse_line line sec m of
                Inl e \<Rightarrow> Some (Inl e)
              | Inr None \<Rightarrow> Some (Inr (1, Map.empty))
              | Inr (Some sm) \<Rightarrow> f st' (fst sm) (snd sm))) = Some r"
    show "\<not> (failbit st \<and> \<not> eofbit st)"
    proof
      assume stuck: "failbit st \<and> \<not> eofbit st"
      then have "f st sec m = Some r"
        using body by (simp add: getline_stuck skipped_def)
      then show False using IH stuck by blast
    qed
  qed
  then show ?thesis using assms by blast
qed

lemma skipped_take: "0 < n \<Longrightarrow> skipped (take n l) = skipped l"
  by (cases l; cases n) (auto simp: skipped_def)

lemma readFrom_loop_eof: "readFrom_loop \<lparr>rest = r, eofbit = True, failbit = b\<rparr> sec m = Some (Inr (0, m))"
  by (subst readFrom_loop.simps) simp

lemma readFrom_loop_overlong:
  assumes "newline \<notin> set l" and "MAX_LINE_LENGTH \<le> length l"
  shows "readFrom_loop (open_stream (l @ cs)) sec m =
     (if skipped l then None else Some (Inr (1, Map.empty)))"
proof -
  obtain r where g: "getline MAX_LINE_LENGTH (open_stream (l @ cs)) =
      (take (MAX_LINE_LENGTH - 1) l, \<lparr>rest = r, eofbit = False, failbit = True\<rparr>)"
    using getline_overlong [OF assms(1,2)] by (auto simp: MAX_LINE_LENGTH_def)
  have "skipped (take (MAX_LINE_LENGTH - 1) l) = skipped l"
    by (rule skipped_take) (simp add: MAX_LINE_LENGTH_def)
  then show ?thesis
    using g by (subst readFrom_loop.simps) (simp add: readFrom_loop_stuck)
qed

lemma readFrom_loop_lines:
  "readFrom_loop (open_stream s) sec m = parse_lines (split_lines s) sec m"
proof (induction "length s" arbitrary: s sec m rule: less_induct)
  case less
  show ?case
  proof (cases "newline \<in> set s")
    case True
    then obtain l cs where s: "s = l @ newline # cs" and l: "newline \<notin> set l"
      by (metis split_list_first)
    have IH: "readFrom_loop (open_stream cs) sec' m' = parse_lines (split_lines cs) sec' m'"
      for sec' m' using less s by simp
    show ?thesis
    proof (cases "length l < MAX_LINE_LENGTH")
      case fits: True
      show ?thesis
        unfolding s using getline_fits [OF l fits, of cs] fits l
        by (subst readFrom_loop.simps)
          (simp add: IH split: sum.splits option.splits)
    next
      case False
      then show ?thesis
        unfolding s using readFrom_loop_overlong [OF l, of "newline # cs"] l by simp
    qed
  next
    case l: False
    show ?thesis
    proof (cases "length s < MAX_LINE_LENGTH")
      case fits: True
      show ?thesis
        using getline_last [OF l fits] fits l
        by (subst readFrom_loop.simps)
          (auto simp: readFrom_loop_eof skipped_def
            split: sum.splits option.splits list.splits)
    next
      case False
      then show ?thesis using readFrom_loop_overlong [OF l, of "[]"] l by simp
    qed
  qed
qed

section \<open>The interface of the map\<close>

text \<open>A map that collects the values pushed under a key, in order: what the parser needs
  of the map it fills, and what the getters need of the map they read.\<close>

locale value_map =
  fixes push :: "'k \<Rightarrow> 'v \<Rightarrow> 'm \<Rightarrow> 'm"
    and vals :: "'m \<Rightarrow> 'k \<Rightarrow> 'v list"
  assumes vals_push: "vals (push k v m) k' = (if k = k' then vals m k @ [v] else vals m k')"
begin

lemma vals_push_all:
  "vals (fold (\<lambda>(k, v). push k v) kvs m) k = vals m k @ map snd (filter (\<lambda>kv. fst kv = k) kvs)"
  by (induction kvs arbitrary: m) (auto simp: vals_push)

end

definition push_pair :: "string \<times> string \<Rightarrow> string \<Rightarrow> config_map \<Rightarrow> config_map" where
  "push_pair sk v = push_value (fst sk) (snd sk) v"

definition values_of :: "config_map \<Rightarrow> string \<times> string \<Rightarrow> string list" where
  "values_of m sk = (case section_of m (fst sk) (snd sk) of None \<Rightarrow> [] | Some vs \<Rightarrow> vs)"

text \<open>The parser never stores a key without a value, so reading the first value of a
  present key is inside the vector.\<close>

definition config_wf :: "config_map \<Rightarrow> bool" where
  "config_wf m \<longleftrightarrow> (\<forall>sec key. section_of m sec key \<noteq> Some [])"

lemma isPresent_section: "isPresent (Some sec) (Some key) m \<longleftrightarrow> section_of m sec key \<noteq> None"
  by (auto simp: isPresent_def section_of_def split: option.splits)

lemma section_push_value:
  "section_of (push_value sec key val m) s k =
     (if s = sec \<and> k = key then Some (values_of m (sec, key) @ [val]) else section_of m s k)"
  by (auto simp: push_value_def Let_def isPresent_def section_of_def values_of_def
      split: option.splits)

lemma values_push_value [simp]:
  "values_of (push_value sec key val m) (s, k) =
     (if s = sec \<and> k = key then values_of m (sec, key) @ [val] else values_of m (s, k))"
  by (simp add: values_of_def section_push_value)

lemma config_wf_push: "config_wf m \<Longrightarrow> config_wf (push_value sec key val m)"
  by (simp add: config_wf_def section_push_value)

lemma config_wf_empty [simp]: "config_wf Map.empty"
  by (simp add: config_wf_def section_of_def)

lemma isPresent_values: "config_wf m \<Longrightarrow> isPresent (Some sec) (Some key) m \<longleftrightarrow> values_of m (sec, key) \<noteq> []"
  by (auto simp: isPresent_section values_of_def config_wf_def split: option.splits)

interpretation config_values: value_map push_pair values_of
  by unfold_locales (auto simp: push_pair_def values_of_def section_push_value)

lemma parse_line_wf:
  "config_wf m \<Longrightarrow> parse_line l sec m = Inr (Some (sec', m')) \<Longrightarrow> config_wf m'"
  by (auto simp: parse_line_def config_wf_push split: sum.splits option.splits)

lemma parse_lines_wf:
  "config_wf m \<Longrightarrow> parse_lines ls sec m = Some (Inr (rc, m')) \<Longrightarrow> config_wf m'"
proof (induction ls sec m rule: parse_lines.induct)
  case (2 l ls sec m)
  then show ?case
    by (auto split: if_splits sum.splits option.splits dest: parse_line_wf)
qed simp

section \<open>Printed configurations\<close>

type_synonym config_section = "string \<times> (string \<times> string) list"

definition header_line :: "string \<Rightarrow> string" where
  "header_line sec = CHR ''['' # sec @ [CHR '']'']"

definition value_line :: "string \<times> string \<Rightarrow> string" where
  "value_line kv = fst kv @ CHR ''='' # snd kv"

definition section_lines :: "config_section \<Rightarrow> string list" where
  "section_lines s = header_line (fst s) # map value_line (snd s)"

definition unlines :: "string list \<Rightarrow> string" where
  "unlines ls = concat (map (\<lambda>l. l @ [newline]) ls)"

definition print_config :: "config_section list \<Rightarrow> string" where
  "print_config cfg = unlines (concat (map section_lines cfg))"

definition section_name_ok :: "string \<Rightarrow> bool" where
  "section_name_ok s \<longleftrightarrow> s \<noteq> [] \<and> length s < MAX_CONFIG_LENGTH \<and>
     (\<forall>c \<in> set s. c \<notin> {CHR '']'', newline, NUL})"

definition key_ok :: "string \<Rightarrow> bool" where
  "key_ok k \<longleftrightarrow> k \<noteq> [] \<and> length k < MAX_CONFIG_LENGTH \<and>
     hd k \<notin> {CHR ''['', CHR ''#'', CHR '';'', CHR 0x0D} \<and>
     (\<forall>c \<in> set k. c \<notin> {CHR ''='', newline, NUL})"

definition value_ok :: "string \<Rightarrow> bool" where
  "value_ok v \<longleftrightarrow> v \<noteq> [] \<and> length v < MAX_CONFIG_LENGTH \<and>
     (\<forall>c \<in> set v. \<not> is_space c \<and> c \<noteq> NUL)"

definition config_ok :: "config_section list \<Rightarrow> bool" where
  "config_ok cfg \<longleftrightarrow>
     (\<forall>s \<in> set cfg. section_name_ok (fst s) \<and> (\<forall>kv \<in> set (snd s). key_ok (fst kv) \<and> value_ok (snd kv)))"

text \<open>The pairs of a configuration, each under its section.\<close>

definition pairs_of :: "config_section list \<Rightarrow> ((string \<times> string) \<times> string) list" where
  "pairs_of cfg = concat (map (\<lambda>s. map (\<lambda>kv. ((fst s, fst kv), snd kv)) (snd s)) cfg)"

lemma scan_set_all:
  assumes "tok \<noteq> []" and "\<forall>c \<in> set tok. p c" and "length tok < n" and "r = [] \<or> \<not> p (hd r)"
  shows "scan_set n p (tok @ r) = Some (tok, r)"
proof -
  have "takeWhile p (take n (tok @ r)) = tok"
    using assms by (cases r; cases "n - length tok") (auto simp: takeWhile_eq_all_conv)
  then show ?thesis using assms by (simp add: scan_set_def)
qed

lemma newline_NUL [simp]: "newline \<noteq> NUL" "is_space newline"
  by (simp_all add: newline_def NUL_def is_space_def)

lemma store_token_ok [simp]: "length tok < MAX_CONFIG_LENGTH \<Longrightarrow> store_token tok = Inr tok"
  by (simp add: store_token_def)

lemma parse_header_line:
  assumes "section_name_ok s"
  shows "parse_line (header_line s) sec m = Inr (Some (s, m))"
proof -
  have "NUL \<notin> set (header_line s)"
    using assms by (auto simp: header_line_def section_name_ok_def NUL_def)
  moreover have "scan_set MAX_CONFIG_LENGTH (\<lambda>c. c \<noteq> CHR '']'') (s @ [CHR '']'']) = Some (s, [CHR '']''])"
    using assms by (intro scan_set_all) (auto simp: section_name_ok_def)
  ultimately show ?thesis
    using assms by (simp add: parse_line_def match_header_def header_line_def section_name_ok_def)
qed

lemma parse_value_line:
  assumes "key_ok (fst kv)" and "value_ok (snd kv)"
  shows "parse_line (value_line kv) sec m = Inr (Some (sec, push_value sec (fst kv) (snd kv) m))"
proof -
  obtain k v where kv: "kv = (k, v)" by (cases kv)
  have nul: "NUL \<notin> set (value_line kv)"
    using assms kv by (auto simp: value_line_def key_ok_def value_ok_def NUL_def)
  have key: "scan_set MAX_CONFIG_LENGTH (\<lambda>c. c \<noteq> CHR ''='') (k @ CHR ''='' # v) = Some (k, CHR ''='' # v)"
    using assms kv by (intro scan_set_all) (auto simp: key_ok_def)
  have "dropWhile is_space v = v"
    using assms kv by (cases v) (auto simp: value_ok_def)
  then have val: "scan_set MAX_CONFIG_LENGTH (\<lambda>c. \<not> is_space c) (dropWhile is_space v) = Some (v, [])"
    using assms kv scan_set_all [of v "\<lambda>c. \<not> is_space c" MAX_CONFIG_LENGTH "[]"]
    by (simp add: value_ok_def)
  have "match_header (value_line kv) = Inr None"
    using assms kv by (cases k) (auto simp: match_header_def value_line_def key_ok_def)
  moreover have "match_key_value (value_line kv) = Inr (Some (k, v))"
    using assms kv key val by (simp add: match_key_value_def value_line_def key_ok_def value_ok_def)
  ultimately show ?thesis
    using nul kv by (simp add: parse_line_def)
qed

lemma section_line_shape:
  assumes "section_name_ok (fst s)" and "\<forall>kv \<in> set (snd s). key_ok (fst kv) \<and> value_ok (snd kv)"
    and "l \<in> set (section_lines s)"
  shows "length l < MAX_LINE_LENGTH \<and> newline \<notin> set l \<and> \<not> skipped l"
proof (cases "l = header_line (fst s)")
  case True
  then show ?thesis
    using assms(1) by (auto simp: header_line_def section_name_ok_def skipped_def newline_def NUL_def
        MAX_LINE_LENGTH_def MAX_CONFIG_LENGTH_def)
next
  case False
  then obtain k v where l: "l = k @ CHR ''='' # v" and ok: "key_ok k" "value_ok v"
    using assms(2,3) by (auto simp: section_lines_def value_line_def)
  then show ?thesis
    by (cases k) (auto simp: key_ok_def value_ok_def skipped_def newline_def NUL_def is_space_def
        MAX_LINE_LENGTH_def MAX_CONFIG_LENGTH_def)
qed

lemma split_unlines:
  "\<forall>l \<in> set ls. newline \<notin> set l \<Longrightarrow> split_lines (unlines ls @ s) = ls @ split_lines s"
  by (induction ls) (auto simp: unlines_def)

lemma parse_value_lines:
  "\<forall>kv \<in> set kvs. key_ok (fst kv) \<and> value_ok (snd kv) \<Longrightarrow> section_name_ok sec \<Longrightarrow>
   parse_lines (map value_line kvs @ ls) sec m =
   parse_lines ls sec (fold (\<lambda>(k, v). push_pair k v) (map (\<lambda>kv. ((sec, fst kv), snd kv)) kvs) m)"
proof (induction kvs arbitrary: m)
  case (Cons kv kvs)
  have "length (value_line kv) < MAX_LINE_LENGTH \<and> newline \<notin> set (value_line kv) \<and> \<not> skipped (value_line kv)"
    using section_line_shape [of "(sec, [kv])" "value_line kv"] Cons.prems
    by (simp add: section_lines_def)
  then show ?case
    using Cons by (simp add: parse_value_line push_pair_def)
qed simp

lemma parse_sections:
  "config_ok cfg \<Longrightarrow> \<exists>sec'. parse_lines (concat (map section_lines cfg) @ ls) sec m =
   parse_lines ls sec' (fold (\<lambda>(k, v). push_pair k v) (pairs_of cfg) m)"
proof (induction cfg arbitrary: sec m)
  case Nil
  then show ?case by (auto simp: pairs_of_def)
next
  case (Cons s cfg)
  let ?m = "fold (\<lambda>(k, v). push_pair k v) (map (\<lambda>kv. ((fst s, fst kv), snd kv)) (snd s)) m"
  have ok: "section_name_ok (fst s)" "\<forall>kv \<in> set (snd s). key_ok (fst kv) \<and> value_ok (snd kv)"
    and rest: "config_ok cfg"
    using Cons.prems by (auto simp: config_ok_def)
  have "length (header_line (fst s)) < MAX_LINE_LENGTH \<and> \<not> skipped (header_line (fst s))"
    using section_line_shape [OF ok, of "header_line (fst s)"] by (simp add: section_lines_def)
  then have "parse_lines (concat (map section_lines (s # cfg)) @ ls) sec m =
      parse_lines (concat (map section_lines cfg) @ ls) (fst s) ?m"
    using parse_value_lines [OF ok(2,1)] by (simp add: section_lines_def parse_header_line [OF ok(1)])
  then show ?case
    using Cons.IH [OF rest, of "fst s" ?m] by (simp add: pairs_of_def)
qed

lemma parse_printed:
  assumes "config_ok cfg"
  shows "readFrom (Some (print_config cfg)) =
     Some (Inr (0, fold (\<lambda>(k, v). push_pair k v) (pairs_of cfg) Map.empty))"
proof -
  have "\<forall>l \<in> set (concat (map section_lines cfg)). newline \<notin> set l"
    using assms section_line_shape by (fastforce simp: config_ok_def)
  then have "split_lines (print_config cfg) = concat (map section_lines cfg) @ [[]]"
    using split_unlines [of "concat (map section_lines cfg)" "[]"] by (simp add: print_config_def)
  moreover obtain sec' where "parse_lines (concat (map section_lines cfg) @ [[]]) [] Map.empty =
      parse_lines [[]] sec' (fold (\<lambda>(k, v). push_pair k v) (pairs_of cfg) Map.empty)"
    using parse_sections [OF assms] by blast
  ultimately show ?thesis
    by (simp add: readFrom_def readFrom_loop_lines skipped_def MAX_LINE_LENGTH_def)
qed

lemma values_of_empty [simp]: "values_of Map.empty sk = []"
  by (simp add: values_of_def section_of_def)

section \<open>Reading values\<close>

lemma getInt_value:
  "config_wf m \<Longrightarrow> values_of m (sec, key) = v # vs \<Longrightarrow> getInt m sec key i = (0, word_of_int (atoi v))"
  by (auto simp: getInt_def isPresent_section values_of_def first_value_def split: option.splits)

lemma getBool_value:
  "config_wf m \<Longrightarrow> values_of m (sec, key) = v # vs \<Longrightarrow>
   getBool tmp m sec key = (0, word_of_int (atoi v) \<noteq> (0 :: u32))"
  by (simp add: getBool_def getInt_value)

lemma getDouble_value:
  "config_wf m \<Longrightarrow> getDouble atof m sec key d =
     (case values_of m (sec, key) of [] \<Rightarrow> (1, d) | v # _ \<Rightarrow> (0, atof v))"
  by (auto simp: getDouble_def isPresent_section values_of_def first_value_def config_wf_def
      split: option.splits list.splits)

lemma read_printed:
  assumes "config_ok cfg"
  obtains m where "readFrom (Some (print_config cfg)) = Some (Inr (0, m))" and "config_wf m"
    and "\<And>sec key. values_of m (sec, key) = map snd (filter (\<lambda>p. fst p = (sec, key)) (pairs_of cfg))"
proof
  let ?m = "fold (\<lambda>(k, v). push_pair k v) (pairs_of cfg) Map.empty"
  show read: "readFrom (Some (print_config cfg)) = Some (Inr (0, ?m))"
    by (rule parse_printed [OF assms])
  then show "config_wf ?m"
    using parse_lines_wf [OF config_wf_empty] by (simp add: readFrom_def readFrom_loop_lines)
  show "values_of ?m (sec, key) = map snd (filter (\<lambda>p. fst p = (sec, key)) (pairs_of cfg))"
    for sec key
    using config_values.vals_push_all [of "pairs_of cfg" Map.empty "(sec, key)"] by simp
qed

lemma atoi_nat_str [simp]: "atoi (nat_str n) = int n"
proof -
  have "\<forall>c \<in> set (nat_str n). \<not> is_space c \<and> c \<noteq> CHR ''-'' \<and> c \<noteq> CHR ''+''"
    using nat_str_digits [of n] by (auto simp: is_digit_def is_space_def)
  moreover obtain c cs where "nat_str n = c # cs" using nat_str_nonempty by (cases "nat_str n") auto
  ultimately show ?thesis
    using digits_value_nat_str [of n] by (simp add: atoi_def)
qed

section \<open>Properties\<close>

text \<open>C19: on every file that can be opened, \<open>readFrom\<close> computes the line-by-line
  specification \<open>parse_lines\<close>: the same map and return code, the same buffer overflow, and the
  same failure to return.\<close>

theorem readFrom_by_lines:
  "readFrom (Some contents) = parse_lines (split_lines contents) [] Map.empty"
  by (simp add: readFrom_def readFrom_loop_lines)

lemma parse_lines_returns:
  "\<forall>l \<in> set ls. MAX_LINE_LENGTH \<le> length l \<longrightarrow> \<not> skipped l \<Longrightarrow> \<exists>r. parse_lines ls sec m = Some r"
  by (induction ls sec m rule: parse_lines.induct) (auto split: sum.splits option.splits)

text \<open>\<open>readFrom\<close> returns on every file in which no line of 128 or more characters starts
  like a comment (or with a carriage return or a NUL).\<close>

lemma readFrom_returns:
  assumes "\<forall>l \<in> set (split_lines contents). MAX_LINE_LENGTH \<le> length l \<longrightarrow> \<not> skipped l"
  shows "\<exists>r. readFrom (Some contents) = Some r"
  using parse_lines_returns [OF assms] by (simp add: readFrom_def readFrom_loop_lines)

lemma readFrom_returns_witness:
  "\<exists>r. readFrom (Some ''[A]'') = Some r"
  by (rule readFrom_returns) (auto simp: newline_def skipped_def MAX_LINE_LENGTH_def)

lemma parse_lines_append:
  "parse_lines ls sec m = Some (Inr (0, m')) \<Longrightarrow> \<exists>sec'. parse_lines (ls @ rs) sec m = parse_lines rs sec' m'"
proof (induction ls sec m rule: parse_lines.induct)
  case (2 l ls sec m)
  then show ?case by (auto split: if_splits sum.splits option.splits)
qed auto

text \<open>C37: a comment line of 128 or more characters after lines that parse makes
  \<open>readFrom\<close> run forever: the failed \<open>getline\<close> sets \<open>failbit\<close>, the test for a comment comes
  before the test for a failed read, and the end of the file is never reached.\<close>

theorem readFrom_hangs_on_long_comment:
  assumes "\<forall>l \<in> set ls. newline \<notin> set l"
    and "parse_lines ls [] Map.empty = Some (Inr (0, m))"
    and "newline \<notin> set comment" and "MAX_LINE_LENGTH \<le> length comment"
    and "hd comment = CHR ''#''"
  shows "readFrom (Some (unlines ls @ comment @ newline # remaining)) = None"
proof -
  have "skipped comment"
    using assms(4,5) by (cases comment) (auto simp: skipped_def MAX_LINE_LENGTH_def)
  moreover obtain sec' where "parse_lines (ls @ comment # split_lines remaining) [] Map.empty =
      parse_lines (comment # split_lines remaining) sec' m"
    using parse_lines_append [OF assms(2)] by blast
  ultimately show ?thesis
    using assms(1,3,4) by (simp add: readFrom_def readFrom_loop_lines split_unlines)
qed

theorem readFrom_hangs_on_long_comment_witness:
  "readFrom (Some (unlines [] @ replicate 128 (CHR ''#'') @ newline # ''a=b'')) = None"
  by (rule readFrom_hangs_on_long_comment [where m = Map.empty])
    (simp_all add: newline_def MAX_LINE_LENGTH_def)

text \<open>C23: printing a configuration and reading it back gives, under every section and key,
  the values of that section and key in the order they were printed; no key is stored
  without a value.\<close>

theorem config_roundtrip:
  assumes "config_ok cfg"
  shows "\<exists>m. readFrom (Some (print_config cfg)) = Some (Inr (0, m)) \<and> config_wf m \<and>
     (\<forall>sec key. values_of m (sec, key) =
        map snd (filter (\<lambda>p. fst p = (sec, key)) (pairs_of cfg)))"
  by (rule read_printed [OF assms]) auto

definition sample_config :: "config_section list" where
  "sample_config =
    [(''Worker'', [(''preignite_ms'', ''750''), (''hotflow_ms'', ''10000'')]),
     (''Luna'', [(''gitvc_times_ms'', ''1000''), (''gitvc_times_ms'', ''2000'')])]"

lemma sample_config_ok: "config_ok sample_config"
  by (simp add: sample_config_def config_ok_def section_name_ok_def key_ok_def value_ok_def
      MAX_CONFIG_LENGTH_def newline_def NUL_def is_space_def)

theorem config_roundtrip_witness:
  "\<exists>m. readFrom (Some (print_config sample_config)) = Some (Inr (0, m)) \<and> config_wf m \<and>
     (\<forall>sec key. values_of m (sec, key) =
        map snd (filter (\<lambda>p. fst p = (sec, key)) (pairs_of sample_config)))"
  by (rule config_roundtrip [OF sample_config_ok])

text \<open>C34: on a map the parser filled, a key with values \<open>v # vs\<close> makes every scalar getter
  return 0 and read the first value, and \<open>getVector\<close> append all of them in order; a key
  without values makes every getter but \<open>getBool\<close> return 1 and leave its destination as it
  was.\<close>

theorem getters_by_values:
  assumes "config_wf m"
  shows "case values_of m (sec, key) of
     [] \<Rightarrow> getString m sec key s n = (1, s) \<and> getInt m sec key i = (1, i) \<and>
           getDouble atof m sec key d = (1, d) \<and> getVector m sec key vec = (1, vec)
   | v # vs \<Rightarrow> getString m sec key s n = (0, strncpy s v n) \<and>
           getInt m sec key i = (0, word_of_int (atoi v)) \<and>
           getDouble atof m sec key d = (0, atof v) \<and>
           getBool tmp m sec key = (0, word_of_int (atoi v) \<noteq> (0 :: u32)) \<and>
           getVector m sec key vec = (0, vec @ map (\<lambda>x. word_of_int (atoi x)) (v # vs))"
proof (cases "values_of m (sec, key)")
  case Nil
  then show ?thesis
    using isPresent_values [OF assms]
    by (simp add: getString_def getInt_def getDouble_def getVector_def)
next
  case (Cons v vs)
  then have sec: "section_of m sec key = Some (v # vs)"
    by (auto simp: values_of_def split: option.splits)
  then have "first_value m sec key = v" by (simp add: first_value_def)
  then show ?thesis
    using isPresent_values [OF assms, of sec key] Cons sec
    by (simp add: getString_def getInt_def getDouble_def getVector_def getBool_def)
qed

theorem getters_by_values_witness:
  "getInt (push_value ''Worker'' ''hotflow_ms'' ''10000'' Map.empty) ''Worker'' ''hotflow_ms'' 7 = (0, 10000) \<and>
   getInt Map.empty ''Worker'' ''hotflow_ms'' 7 = (1, 7)"
proof -
  have "values_of (push_value ''Worker'' ''hotflow_ms'' ''10000'' Map.empty) (''Worker'', ''hotflow_ms'') = [''10000'']"
    by simp
  moreover have "atoi ''10000'' = 10000" by code_simp
  ultimately show ?thesis
    using getters_by_values [OF config_wf_push [OF config_wf_empty], of "''Worker''" "''hotflow_ms''" "''10000''"
        "''Worker''" "''hotflow_ms''" _ _ 7]
      getters_by_values [OF config_wf_empty, of "''Worker''" "''hotflow_ms''" _ _ 7]
    by simp
qed

text \<open>\<open>getBool\<close> reports success for a key that is not in the file and stores whatever its
  uninitialised local held.\<close>

lemma getBool_absent_key:
  assumes "\<not> isPresent (Some sec) (Some key) m"
  shows "getBool temp m sec key = (0, temp \<noteq> 0)"
  using assms by (simp add: getBool_def getInt_def)

lemma getBool_absent_key_witness:
  "getBool 0 Map.empty ''Main'' ''engine_type'' = (0, False) \<and>
   getBool 51966 Map.empty ''Main'' ''engine_type'' = (0, True)"
  using getBool_absent_key [of "''Main''" "''engine_type''" Map.empty 0]
    getBool_absent_key [of "''Main''" "''engine_type''" Map.empty 51966]
  by (simp add: isPresent_def)

text \<open>\<open>getString\<close> with the size of its destination never writes past it, and leaves a
  terminated string exactly when the value is shorter than the destination.\<close>

lemma getString_terminated:
  assumes "config_wf m" and "values_of m (sec, key) = v # vs" and "NUL \<notin> set v"
    and "length dest = n"
  shows "\<exists>dest'. getString m sec key dest n = (0, dest') \<and> length dest' = n \<and>
     (if length v < n then c_str dest' = v \<and> NUL \<in> set dest'
      else dest' = take n v \<and> NUL \<notin> set dest')"
proof -
  have get: "getString m sec key dest n = (0, strncpy dest v n)"
    using getters_by_values [OF assms(1), of sec key dest n] assms(2) by simp
  have pad: "length v < n \<Longrightarrow> replicate (n - length v) NUL = NUL # replicate (n - length v - 1) NUL"
    by (cases "n - length v") auto
  show ?thesis
    using get assms(3,4) pad by (auto simp: strncpy_def dest: in_set_takeD)
qed

lemma getString_terminated_witness:
  "\<exists>dest'. getString (push_value ''Network'' ''address'' ''192.168.100.100x'' Map.empty)
       ''Network'' ''address'' (replicate 16 NUL) 16 = (0, dest') \<and> length dest' = 16 \<and>
     NUL \<notin> set dest'"
proof -
  let ?v = "''192.168.100.100x''"
  have "values_of (push_value ''Network'' ''address'' ?v Map.empty) (''Network'', ''address'') = [?v]"
    by simp
  then show ?thesis
    using getString_terminated [OF config_wf_push [OF config_wf_empty], of _ _ ?v "''Network''" "''address''" ?v
        "[]" "replicate 16 NUL" 16]
    by (auto simp: NUL_def)
qed

text \<open>A key of 64 characters, the documented maximum, or more overflows the 64-byte
  buffer of the parser by its terminating NUL, whatever follows it on the line.\<close>

lemma long_key_overflows:
  assumes "MAX_CONFIG_LENGTH \<le> length key" and "hd key \<noteq> CHR ''[''"
    and "\<forall>c \<in> set key. c \<notin> {CHR ''='', NUL}"
  shows "parse_line (key @ tl_line) sec m = Inl OutOfBounds"
proof -
  let ?s = "c_str (key @ tl_line)"
  have ne: "key \<noteq> []" using assms(1) by (auto simp: MAX_CONFIG_LENGTH_def)
  have s: "?s = key @ c_str tl_line"
    using assms(3) by (auto simp: c_str_def takeWhile_append2)
  then have s': "?s \<noteq> [] \<and> hd ?s \<noteq> CHR ''[''"
    using assms(2) ne by simp
  have tok: "takeWhile (\<lambda>c. c \<noteq> CHR ''='') (take MAX_CONFIG_LENGTH key) = take MAX_CONFIG_LENGTH key"
    using assms(3) by (auto simp: takeWhile_eq_all_conv dest: in_set_takeD)
  then have "scan_set MAX_CONFIG_LENGTH (\<lambda>c. c \<noteq> CHR ''='') ?s =
      Some (take MAX_CONFIG_LENGTH key, drop MAX_CONFIG_LENGTH ?s)"
    using assms(1) ne by (simp add: scan_set_def s MAX_CONFIG_LENGTH_def del: takeWhile_eq_all_conv)
  then have "match_key_value ?s = Inl OutOfBounds"
    using assms(1) by (simp add: match_key_value_def store_token_def)
  moreover have "match_header ?s = Inr None"
    using s' by (cases ?s) (simp_all add: match_header_def)
  ultimately show ?thesis by (simp add: parse_line_def)
qed

lemma long_key_overflows_witness:
  "parse_line (replicate 64 (CHR ''k'') @ ''=7'') [] Map.empty = Inl OutOfBounds"
  by (rule long_key_overflows) (auto simp: MAX_CONFIG_LENGTH_def NUL_def)

text \<open>A line \<open>[]\<close> is malformed: wherever the parser meets it, \<open>readFrom\<close> drops the whole map
  and returns 1.\<close>

lemma empty_header_rejected:
  assumes "\<forall>l \<in> set ls. newline \<notin> set l" and "parse_lines ls [] Map.empty = Some (Inr (0, m))"
  shows "readFrom (Some (unlines ls @ ''[]'' @ newline # remaining)) = Some (Inr (1, Map.empty))"
proof -
  have nl: "newline \<notin> set ''[]''" by (simp add: newline_def)
  have "parse_line ''[]'' sec m' = Inr None" for sec m'
    by (simp add: parse_line_def c_str_def NUL_def match_header_def match_key_value_def
        scan_set_def MAX_CONFIG_LENGTH_def store_token_def)
  moreover obtain sec' where "parse_lines (ls @ ''[]'' # split_lines remaining) [] Map.empty =
      parse_lines (''[]'' # split_lines remaining) sec' m"
    using parse_lines_append [OF assms(2)] by blast
  ultimately show ?thesis
    using assms(1) split_unlines [of ls "''[]'' @ newline # remaining"] split_lines_newline [OF nl]
    by (simp add: readFrom_def readFrom_loop_lines skipped_def MAX_LINE_LENGTH_def newline_def NUL_def)
qed

lemma empty_header_rejected_witness:
  "readFrom (Some (unlines [''a=b''] @ ''[]'' @ newline # ''c=d'')) = Some (Inr (1, Map.empty))"
proof (rule empty_header_rejected)
  show "\<forall>l \<in> set [''a=b'']. newline \<notin> set l" by (simp add: newline_def)
  have "parse_line ''a=b'' [] Map.empty = Inr (Some ([], push_value [] ''a'' ''b'' Map.empty))"
    using parse_value_line [of "(''a'', ''b'')"]
    by (simp add: value_line_def key_ok_def value_ok_def MAX_CONFIG_LENGTH_def newline_def NUL_def is_space_def)
  then show "parse_lines [''a=b''] [] Map.empty = Some (Inr (0, push_value [] ''a'' ''b'' Map.empty))"
    by (simp add: skipped_def MAX_LINE_LENGTH_def newline_def NUL_def)
qed

end
