(* ===== verification/Resfet_Visitor.thy ===== *)
theory Resfet_Visitor
  imports Resfet_Init Resfet_Config_Spec
begin

text \<open>
  The command visitors (include/visitor/, src/visitor/): the COMMAND enumeration, the
  three \<open>visitCommand\<close> methods as functions on the world, and the constructors that read
  the configuration. \<open>LunaVisitor\<close> and \<open>TitanVisitor\<close> defer to \<open>WorkerVisitor\<close> in their
  default case, as the C++ methods do.

  The locale \<open>visitor\<close> is what main.cpp relies on when it calls \<open>visitCommand\<close> through
  the base class; it is interpreted for the three classes, and the facts about a
  sequence of commands are proved once from it.
\<close>

section \<open>Commands\<close>

datatype COMMAND =
    UNSET_DRIVER1 | SET_DRIVER1 | UNSET_DRIVER2 | SET_DRIVER2 | UNSET_DRIVER3 | SET_DRIVER3
  | UNSET_DRIVER4 | SET_DRIVER4 | UNSET_DRIVER5 | SET_DRIVER5 | UNSET_DRIVER6 | SET_DRIVER6
  | STOP_IGNITION | START_IGNITION
  | TITAN_LEAK_CHECK | TITAN_FILL | TITAN_FILL_IDLE | TITAN_TAPE_ON | TITAN_TAPE_OFF | TITAN_DEF
  | RESERVED20 | RESERVED21 | RESERVED22 | RESERVED23 | RESERVED24 | RESERVED25 | RESERVED26
  | RESERVED27 | RESERVED28 | RESERVED29 | RESERVED30 | RESERVED31
  | NUM_COMMANDS
  | Unnamed u8

definition enumerators :: "COMMAND list" where
  "enumerators =
    [UNSET_DRIVER1, SET_DRIVER1, UNSET_DRIVER2, SET_DRIVER2, UNSET_DRIVER3, SET_DRIVER3,
     UNSET_DRIVER4, SET_DRIVER4, UNSET_DRIVER5, SET_DRIVER5, UNSET_DRIVER6, SET_DRIVER6,
     STOP_IGNITION, START_IGNITION,
     TITAN_LEAK_CHECK, TITAN_FILL, TITAN_FILL_IDLE, TITAN_TAPE_ON, TITAN_TAPE_OFF, TITAN_DEF,
     RESERVED20, RESERVED21, RESERVED22, RESERVED23, RESERVED24, RESERVED25, RESERVED26,
     RESERVED27, RESERVED28, RESERVED29, RESERVED30, RESERVED31, NUM_COMMANDS]"

text \<open>The cast \<open>(COMMAND) read\<close>: the underlying type is fixed, so every byte is a value of
  the enumeration, named or not; and the integer a COMMAND is printed as.\<close>

definition COMMAND_of :: "u8 \<Rightarrow> COMMAND" where
  "COMMAND_of b = (if unat b < length enumerators then enumerators ! unat b else Unnamed b)"

fun index_of :: "'a list \<Rightarrow> 'a \<Rightarrow> nat" where
  "index_of [] x = 0"
| "index_of (y # ys) x = (if x = y then 0 else Suc (index_of ys x))"

definition COMMAND_code :: "COMMAND \<Rightarrow> nat" where
  "COMMAND_code c = (case c of Unnamed b \<Rightarrow> unat b | _ \<Rightarrow> index_of enumerators c)"

definition command_names :: "string list" where
  "command_names =
    [''UNSET_DRIVER1'', ''SET_DRIVER1'', ''UNSET_DRIVER2'', ''SET_DRIVER2'', ''UNSET_DRIVER3'',
     ''SET_DRIVER3'', ''UNSET_DRIVER4'', ''SET_DRIVER4'', ''UNSET_DRIVER5'', ''SET_DRIVER5'',
     ''UNSET_DRIVER6'', ''SET_DRIVER6'', ''STOP_IGNITION'', ''START_IGNITION'',
     ''TITAN_LEAK_CHECK'', ''TITAN_FILL'', ''TITAN_FILL_IDLE'', ''TITAN_TAPE_ON'',
     ''TITAN_TAPE_OFF'', ''TITAN_DEF'',
     ''RESERVED'', ''RESERVED'', ''RESERVED'', ''RESERVED'', ''RESERVED'', ''RESERVED'',
     ''RESERVED'', ''RESERVED'', ''RESERVED'', ''RESERVED'', ''RESERVED'', ''RESERVED'']"

lemma length_enumerators [simp]: "length enumerators = 33"
  by (simp add: enumerators_def)

lemma index_of_nth: "distinct xs \<Longrightarrow> i < length xs \<Longrightarrow> index_of xs (xs ! i) = i"
proof (induction xs arbitrary: i)
  case (Cons x xs)
  then show ?case by (cases i) (auto simp: nth_mem)
qed simp

lemma distinct_enumerators: "distinct enumerators"
  by (simp add: enumerators_def)

lemma nth_enumerators_named: "i < 33 \<Longrightarrow> enumerators ! i \<noteq> Unnamed b"
  using nth_mem [of i enumerators] by (auto simp: enumerators_def)

lemma COMMAND_code_of [simp]: "COMMAND_code (COMMAND_of b) = unat b"
proof (cases "unat b < 33")
  case True
  have "COMMAND_code c = index_of enumerators c" if "\<And>x. c \<noteq> Unnamed x" for c
    using that by (cases c) (auto simp add: COMMAND_code_def simp del: index_of.simps)
  then show ?thesis
    using True nth_enumerators_named [OF True] index_of_nth [OF distinct_enumerators, of "unat b"]
    by (simp add: COMMAND_of_def)
qed (simp add: COMMAND_of_def COMMAND_code_def)

lemma COMMAND_of_inj [simp]: "COMMAND_of a = COMMAND_of b \<longleftrightarrow> a = b"
  by (metis COMMAND_code_of word_unat_eq_iff)

section \<open>Handlers\<close>

text \<open>A case of a switch that logs the pin and drives it.\<close>

definition drive :: "string \<Rightarrow> RPiGPIOPin \<Rightarrow> level \<Rightarrow> world \<Rightarrow> world" where
  "drive fmt p l w = gpio_write p l (logger_log INFO fmt [Pin p] w)"

definition doIgn :: "world \<Rightarrow> world" where
  "doIgn w = w\<lparr>ignitionOn := True\<rparr>\<lparr>pressureShutoff := False\<rparr>"

definition Worker_visitCommand :: "COMMAND \<Rightarrow> world \<Rightarrow> world" where
  "Worker_visitCommand c w =
    (case c of
       UNSET_DRIVER1 \<Rightarrow> drive ''Writing driver 1 off using pin %d\<newline>'' DRIVER1 LOW w
     | SET_DRIVER1 \<Rightarrow> drive ''Writing driver 1 on using pin %d\<newline>'' DRIVER1 HIGH w
     | UNSET_DRIVER2 \<Rightarrow> drive ''Writing driver 2 off using pin %d\<newline>'' DRIVER2 LOW w
     | SET_DRIVER2 \<Rightarrow> drive ''Writing driver 2 on using pin %d\<newline>'' DRIVER2 HIGH w
     | UNSET_DRIVER3 \<Rightarrow> drive ''Writing driver 3 off using pin %d\<newline>'' DRIVER3 LOW w
     | SET_DRIVER3 \<Rightarrow> drive ''Writing driver 3 on using pin %d\<newline>'' DRIVER3 HIGH w
     | UNSET_DRIVER4 \<Rightarrow> drive ''Writing driver 4 off using pin %d\<newline>'' DRIVER4 LOW w
     | SET_DRIVER4 \<Rightarrow> drive ''Writing driver 4 on using pin %d\<newline>'' DRIVER4 HIGH w
     | UNSET_DRIVER5 \<Rightarrow> drive ''Writing driver 5 off using pin %d\<newline>'' DRIVER5 LOW w
     | SET_DRIVER5 \<Rightarrow> drive ''Writing driver 5 on using pin %d\<newline>'' DRIVER5 HIGH w
     | UNSET_DRIVER6 \<Rightarrow> drive ''Writing driver 6 off using pin %d\<newline>'' DRIVER6 LOW w
     | SET_DRIVER6 \<Rightarrow> drive ''Writing driver 6 on using pin %d\<newline>'' DRIVER6 HIGH w
     | START_IGNITION \<Rightarrow> doIgn (logger_log INFO ''Starting ignition\<newline>'' [] w)
     | STOP_IGNITION \<Rightarrow>
         (let w1 = (logger_log INFO ''Stopping ignition\<newline>'' [] w)\<lparr>ignitionOn := False\<rparr>;
              w2 = gpio_write MAIN_VALVE LOW w1
          in gpio_write IGN_START LOW w2)
     | _ \<Rightarrow> logger_log ERROR ''Command not handled: %d\<newline>'' [Num (COMMAND_code c)] w)"

definition Luna_visitCommand :: "COMMAND \<Rightarrow> world \<Rightarrow> world" where
  "Luna_visitCommand c w =
    (case c of
       UNSET_DRIVER1 \<Rightarrow> drive ''Writing main valve off using pin %d\<newline>'' MAIN_VALVE LOW w
     | SET_DRIVER1 \<Rightarrow> drive ''Writing main valve on using pin %d\<newline>'' MAIN_VALVE HIGH w
     | UNSET_DRIVER2 \<Rightarrow> drive ''Writing pressurization valve off using pin %d\<newline>'' PRESSURE_VALVE LOW w
     | SET_DRIVER2 \<Rightarrow> drive ''Writing pressurization valve on using pin %d\<newline>'' PRESSURE_VALVE HIGH w
     | _ \<Rightarrow> Worker_visitCommand c w)"

definition Titan_visitCommand :: "COMMAND \<Rightarrow> world \<Rightarrow> world" where
  "Titan_visitCommand c w =
    (case c of
       UNSET_DRIVER1 \<Rightarrow>
         drive ''Writing main feed line fill valve off using pin %d\<newline>'' MAIN_FEED_VALVE LOW w
     | SET_DRIVER1 \<Rightarrow>
         drive ''Writing main feed line fill valve on using pin %d\<newline>'' MAIN_FEED_VALVE HIGH w
     | UNSET_DRIVER2 \<Rightarrow> drive ''Turning oxidizer tank valve off using pin %d\<newline>'' OXI_VALVE LOW w
     | SET_DRIVER2 \<Rightarrow> drive ''Turning oxidizer tank valve on using pin %d\<newline>'' OXI_VALVE HIGH w
     | UNSET_DRIVER3 \<Rightarrow> drive ''Writing ground vent valve off using pin %d\<newline>'' GROUND_VENT_VALVE LOW w
     | SET_DRIVER3 \<Rightarrow> drive ''Writing ground vent valve on using pin %d\<newline>'' GROUND_VENT_VALVE HIGH w
     | TITAN_LEAK_CHECK \<Rightarrow> logger_log INFO ''Entering leak check preset\<newline>'' [] w
     | TITAN_FILL \<Rightarrow> logger_log INFO ''Entering fill preset\<newline>'' [] w
     | TITAN_FILL_IDLE \<Rightarrow> logger_log INFO ''Entering fill idle preset\<newline>'' [] w
     | TITAN_DEF \<Rightarrow> logger_log INFO ''Entering default preset\<newline>'' [] w
     | _ \<Rightarrow> Worker_visitCommand c w)"

lemmas visit_defs = Worker_visitCommand_def Luna_visitCommand_def Titan_visitCommand_def
  drive_def doIgn_def Let_def

section \<open>Constructors\<close>

text \<open>The members a constructor does not set keep what the allocation held: they are
  arguments. \<open>temp\<close> is the local of each \<open>getBool\<close> call.\<close>

record WorkerVisitor =
  preignite_ms :: u32
  hotflow_ms :: u32
  pressureshutoff_ms :: u32
  enableShutoff :: bool

definition new_WorkerVisitor :: "config_map \<Rightarrow> WorkerVisitor \<Rightarrow> u32 \<Rightarrow> world \<Rightarrow> WorkerVisitor \<times> world" where
  "new_WorkerVisitor m raw temp w =
    (let pre = snd (getInt m ''Worker'' ''preignite_ms'' (preignite_ms raw));
         hot = snd (getInt m ''Worker'' ''hotflow_ms'' (hotflow_ms raw));
         psm = snd (getInt m ''Pressure'' ''pressureshutoff_ms'' (pressureshutoff_ms raw));
         en = snd (getBool temp m ''Pressure'' ''shutoff_enabled'');
         w1 = logger_log DEBUG ''preignite_ms: %d\<newline>'' [Num (unat pre)] w;
         w2 = logger_log DEBUG ''hotflow_ms: %d\<newline>'' [Num (unat hot)] w1;
         w3 = logger_log DEBUG ''pressureshutoff_ms: %d\<newline>'' [Num (unat psm)] w2;
         w4 = logger_log DEBUG ''shutoff_enabled: %d\<newline>'' [Num (of_bool en)] w3
     in (\<lparr>preignite_ms = pre, hotflow_ms = hot, pressureshutoff_ms = psm, enableShutoff = en\<rparr>,
         w4\<lparr>ignitionOn := False\<rparr>))"

text \<open>The arguments \<open>ignThreadFunc\<close> is started with, widened to \<open>timestamp_t\<close>.\<close>

record burn_config =
  burn_time :: u64
  preigniteTime :: u64
  pressureShutoffDelay :: u64
  shutoffEnabled :: bool

definition ign_args :: "WorkerVisitor \<Rightarrow> burn_config" where
  "ign_args v = \<lparr>burn_time = ucast (hotflow_ms v), preigniteTime = ucast (preignite_ms v),
     pressureShutoffDelay = ucast (pressureshutoff_ms v), shutoffEnabled = enableShutoff v\<rparr>"

record LunaVisitor =
  worker :: WorkerVisitor
  gitvc_on :: bool
  use_gitvc :: bool
  gitvc_count :: u8
  time_between_gitvc_ms :: u32
  gitvc_wait_time_ms :: u32
  gitvc_times_ms :: "u32 list"

definition new_LunaVisitor :: "config_map \<Rightarrow> LunaVisitor \<Rightarrow> u32 \<Rightarrow> u32 \<Rightarrow> world \<Rightarrow> LunaVisitor \<times> world" where
  "new_LunaVisitor m raw temp temp' w =
    (let (wk, w1) = new_WorkerVisitor m (worker raw) temp w;
         use = snd (getBool temp' m ''Luna'' ''use_gitvc'');
         tbg = snd (getInt m ''Luna'' ''time_between_gitvc_ms'' (time_between_gitvc_ms raw));
         gwt = snd (getInt m ''Luna'' ''gitvc_wait_time_ms'' (gitvc_wait_time_ms raw));
         ts = snd (getVector m ''Luna'' ''gitvc_times_ms'' []);
         w2 = logger_log DEBUG ''use_gitvc: %d\<newline>'' [Num (of_bool use)] w1;
         w3 = logger_log DEBUG ''time_between_gitvc_ms: %d\<newline>'' [Num (unat tbg)] w2;
         w4 = logger_log DEBUG ''gitvc_wait_time_ms: %d\<newline>'' [Num (unat gwt)] w3;
         w5 = fold (\<lambda>t. logger_log DEBUG ''gitvc_times_ms: %d\<newline>'' [Num (unat t)]) ts w4
     in (\<lparr>worker = wk, gitvc_on = False, use_gitvc = use, gitvc_count = 0,
          time_between_gitvc_ms = tbg, gitvc_wait_time_ms = gwt, gitvc_times_ms = ts\<rparr>, w5))"

definition new_TitanVisitor :: "config_map \<Rightarrow> WorkerVisitor \<Rightarrow> u32 \<Rightarrow> world \<Rightarrow> WorkerVisitor \<times> world" where
  "new_TitanVisitor = new_WorkerVisitor"

text \<open>The default constructors, which \<open>main\<close> does not use: \<open>raw\<close> is the object's memory, and no
  monitor is started. \<open>doGITVC\<close> has an empty body.\<close>

definition blank_WorkerVisitor :: "WorkerVisitor \<Rightarrow> WorkerVisitor" where
  "blank_WorkerVisitor raw = raw"

definition blank_LunaVisitor :: "LunaVisitor \<Rightarrow> LunaVisitor" where
  "blank_LunaVisitor raw =
     raw\<lparr>worker := blank_WorkerVisitor (worker raw), gitvc_on := False, gitvc_count := 0\<rparr>"

definition doGITVC :: "world \<Rightarrow> world" where
  "doGITVC w = w"

section \<open>The interface of a visitor\<close>

text \<open>\<open>hw c\<close> is what a command does to the hardware. Only START_IGNITION and STOP_IGNITION
  touch the ignition flag, and nothing but START_IGNITION touches the shutoff flag.\<close>

definition driver_pins :: "RPiGPIOPin list" where
  "driver_pins = [DRIVER1, DRIVER2, DRIVER3, DRIVER4, DRIVER5, DRIVER6]"

fun ignition_after :: "COMMAND \<Rightarrow> bool \<Rightarrow> bool" where
  "ignition_after START_IGNITION on = True"
| "ignition_after STOP_IGNITION on = False"
| "ignition_after c on = on"

definition opens :: "COMMAND \<Rightarrow> bool" where
  "opens c \<longleftrightarrow> c \<in> {SET_DRIVER1, SET_DRIVER6, START_IGNITION}"

locale visitor =
  fixes visitCommand :: "COMMAND \<Rightarrow> world \<Rightarrow> world"
    and hw :: "COMMAND \<Rightarrow> hw_call list"
  assumes visit_calls: "calls (visitCommand c w) = calls w @ hw c"
    and visit_ignition: "ignitionOn (visitCommand c w) = ignition_after c (ignitionOn w)"
    and visit_shutoff: "pressureShutoff (visitCommand c w) = (pressureShutoff w \<and> c \<noteq> START_IGNITION)"
    and visit_mutex: "adc_mutex (visitCommand c w) = adc_mutex w"
    and hw_stop: "commanded (hw STOP_IGNITION) MAIN_VALVE = Some LOW"
      "commanded (hw STOP_IGNITION) IGN_START = Some LOW"
    and hw_opens: "\<not> opens c \<Longrightarrow> commanded (hw c) p = Some HIGH \<Longrightarrow> p \<noteq> MAIN_VALVE \<and> p \<noteq> IGN_START"
    and hw_drivers: "call \<in> set (hw c) \<Longrightarrow> \<exists>p l. call = Gpio_write p l \<and> p \<in> set driver_pins"
begin

definition visit_all :: "COMMAND list \<Rightarrow> world \<Rightarrow> world" where
  "visit_all cs w = fold visitCommand cs w"

lemma visit_all_calls: "calls (visit_all cs w) = calls w @ concat (map hw cs)"
  by (induction cs arbitrary: w) (simp_all add: visit_all_def visit_calls)

lemma visit_all_append: "visit_all (cs @ ds) w = visit_all ds (visit_all cs w)"
  by (simp add: visit_all_def)

lemma visit_all_ignition: "ignitionOn (visit_all cs w) = fold ignition_after cs (ignitionOn w)"
  by (induction cs arbitrary: w) (simp_all add: visit_all_def visit_ignition)

lemma visit_all_mutex: "adc_mutex (visit_all cs w) = adc_mutex w"
  by (induction cs arbitrary: w) (simp_all add: visit_all_def visit_mutex)

lemma no_open_stays_low:
  assumes "p \<in> {MAIN_VALVE, IGN_START}" and "\<forall>c \<in> set cs. \<not> opens c"
  shows "commanded (concat (map hw cs)) p \<noteq> Some HIGH"
  using assms(2)
proof (induction cs rule: rev_induct)
  case (snoc c cs)
  have "\<not> opens c" and "\<forall>c \<in> set cs. \<not> opens c" using snoc.prems by simp_all
  then show ?case
    using hw_opens [of c p] snoc.IH assms(1)
    unfolding concat_append map_append commanded_append map_add_Some_iff by auto
qed simp

lemma stop_then_no_open:
  assumes "\<forall>c \<in> set after. \<not> opens c" and "p \<in> {MAIN_VALVE, IGN_START}"
  shows "commanded (calls (visit_all (before @ STOP_IGNITION # after) w)) p = Some LOW"
proof -
  have "commanded (hw STOP_IGNITION) p = Some LOW"
    using assms(2) hw_stop by auto
  moreover have "commanded (concat (map hw after)) p \<noteq> Some HIGH"
    using no_open_stays_low assms by blast
  ultimately show ?thesis
    by (cases "commanded (concat (map hw after)) p"; cases "the (commanded (concat (map hw after)) p)")
      (auto simp: visit_all_calls commanded_append map_add_def)
qed

lemma stop_ignition_off:
  assumes "\<forall>c \<in> set after. \<not> opens c"
  shows "\<not> ignitionOn (visit_all (before @ STOP_IGNITION # after) w)"
proof -
  have "fold ignition_after after False = False"
    using assms
  proof (induction after)
    case (Cons c cs)
    then show ?case by (cases c) (auto simp: opens_def)
  qed simp
  then show ?thesis by (simp add: visit_all_ignition)
qed

end

text \<open>What each command does to the hardware, for all three classes: the Luna and Titan
  names of the driver pins are aliases.\<close>

definition hw_of :: "COMMAND \<Rightarrow> hw_call list" where
  "hw_of c =
    (case c of
       UNSET_DRIVER1 \<Rightarrow> [Gpio_write DRIVER1 LOW] | SET_DRIVER1 \<Rightarrow> [Gpio_write DRIVER1 HIGH]
     | UNSET_DRIVER2 \<Rightarrow> [Gpio_write DRIVER2 LOW] | SET_DRIVER2 \<Rightarrow> [Gpio_write DRIVER2 HIGH]
     | UNSET_DRIVER3 \<Rightarrow> [Gpio_write DRIVER3 LOW] | SET_DRIVER3 \<Rightarrow> [Gpio_write DRIVER3 HIGH]
     | UNSET_DRIVER4 \<Rightarrow> [Gpio_write DRIVER4 LOW] | SET_DRIVER4 \<Rightarrow> [Gpio_write DRIVER4 HIGH]
     | UNSET_DRIVER5 \<Rightarrow> [Gpio_write DRIVER5 LOW] | SET_DRIVER5 \<Rightarrow> [Gpio_write DRIVER5 HIGH]
     | UNSET_DRIVER6 \<Rightarrow> [Gpio_write DRIVER6 LOW] | SET_DRIVER6 \<Rightarrow> [Gpio_write DRIVER6 HIGH]
     | STOP_IGNITION \<Rightarrow> [Gpio_write MAIN_VALVE LOW, Gpio_write IGN_START LOW]
     | _ \<Rightarrow> [])"

lemma visit_hw:
  "calls (Worker_visitCommand c w) = calls w @ hw_of c"
  "calls (Luna_visitCommand c w) = calls w @ hw_of c"
  "calls (Titan_visitCommand c w) = calls w @ hw_of c"
  by (cases c; (simp add: visit_defs hw_of_def MAIN_VALVE_def PRESSURE_VALVE_def
      MAIN_FEED_VALVE_def OXI_VALVE_def GROUND_VENT_VALVE_def; fail))+

lemma visit_flags:
  "ignitionOn (Worker_visitCommand c w) = ignition_after c (ignitionOn w)"
  "ignitionOn (Luna_visitCommand c w) = ignition_after c (ignitionOn w)"
  "ignitionOn (Titan_visitCommand c w) = ignition_after c (ignitionOn w)"
  "pressureShutoff (Worker_visitCommand c w) = (pressureShutoff w \<and> c \<noteq> START_IGNITION)"
  "pressureShutoff (Luna_visitCommand c w) = (pressureShutoff w \<and> c \<noteq> START_IGNITION)"
  "pressureShutoff (Titan_visitCommand c w) = (pressureShutoff w \<and> c \<noteq> START_IGNITION)"
  "adc_mutex (Worker_visitCommand c w) = adc_mutex w"
  "adc_mutex (Luna_visitCommand c w) = adc_mutex w"
  "adc_mutex (Titan_visitCommand c w) = adc_mutex w"
  by (cases c; (simp add: visit_defs; fail))+

lemma hw_of_laws:
  "commanded (hw_of STOP_IGNITION) MAIN_VALVE = Some LOW"
  "commanded (hw_of STOP_IGNITION) IGN_START = Some LOW"
  "\<not> opens c \<Longrightarrow> commanded (hw_of c) p = Some HIGH \<Longrightarrow> p \<noteq> MAIN_VALVE \<and> p \<noteq> IGN_START"
  "call \<in> set (hw_of c) \<Longrightarrow> \<exists>p l. call = Gpio_write p l \<and> p \<in> set driver_pins"
     apply (simp add: hw_of_def commanded_Cons pin_defs)
    apply (simp add: hw_of_def commanded_Cons pin_defs)
   apply (cases c; auto simp: hw_of_def commanded_Cons pin_defs opens_def split: if_splits)
  apply (cases c; auto simp: hw_of_def driver_pins_def MAIN_VALVE_def IGN_START_def)
  done

interpretation worker: visitor Worker_visitCommand hw_of
  by unfold_locales (use hw_of_laws in \<open>simp_all add: visit_hw visit_flags\<close>)

interpretation luna: visitor Luna_visitCommand hw_of
  by unfold_locales (use hw_of_laws in \<open>simp_all add: visit_hw visit_flags\<close>)

interpretation titan: visitor Titan_visitCommand hw_of
  by unfold_locales (use hw_of_laws in \<open>simp_all add: visit_hw visit_flags\<close>)

section \<open>Properties\<close>

text \<open>C2: for each of the three visitors, after any sequence of commands in which a
  STOP_IGNITION is followed by no command that opens the main valve, drives the igniter or
  starts a burn, the ignition flag is off and both pins were last driven low.\<close>

theorem stop_command_safe:
  assumes "visit \<in> {Worker_visitCommand, Luna_visitCommand, Titan_visitCommand}"
    and "\<forall>c \<in> set after. \<not> opens c"
  shows "let w' = fold visit (before @ STOP_IGNITION # after) w in
     \<not> ignitionOn w' \<and> commanded (calls w') MAIN_VALVE = Some LOW \<and>
     commanded (calls w') IGN_START = Some LOW"
  using assms(1) worker.stop_then_no_open [OF assms(2)] luna.stop_then_no_open [OF assms(2)]
    titan.stop_then_no_open [OF assms(2)] worker.stop_ignition_off [OF assms(2)]
    luna.stop_ignition_off [OF assms(2)] titan.stop_ignition_off [OF assms(2)]
  by (auto simp: Let_def worker.visit_all_def luna.visit_all_def titan.visit_all_def)

theorem stop_command_safe_witness:
  "let w' = fold Luna_visitCommand [START_IGNITION, SET_DRIVER1, STOP_IGNITION, SET_DRIVER2] idle_world in
     \<not> ignitionOn w' \<and> commanded (calls w') MAIN_VALVE = Some LOW \<and>
     commanded (calls w') IGN_START = Some LOW"
  using stop_command_safe [of Luna_visitCommand "[SET_DRIVER2]" "[START_IGNITION, SET_DRIVER1]" idle_world]
  by (simp add: opens_def)

text \<open>C31: the three visitors do the same to the hardware, to the flags and to the ADC mutex for
  every command; they differ only in what they log.\<close>

theorem engines_act_alike:
  "Luna_visitCommand c w = (Worker_visitCommand c w)\<lparr>log_calls := log_calls (Luna_visitCommand c w)\<rparr> \<and>
   Titan_visitCommand c w = (Worker_visitCommand c w)\<lparr>log_calls := log_calls (Titan_visitCommand c w)\<rparr>"
  by (cases c; simp add: visit_defs do_calls_def gpio_write_def logger_log_def MAIN_VALVE_def
      PRESSURE_VALVE_def MAIN_FEED_VALVE_def OXI_VALVE_def GROUND_VENT_VALVE_def)

lemma log_calls_logger [simp]:
  "log_calls (logger_log lv fmt args w) = log_calls w @ [Log_call lv fmt args]"
  by (simp add: logger_log_def)

lemma COMMAND_of_Unnamed: "COMMAND_of b = Unnamed x \<Longrightarrow> 33 \<le> COMMAND_code (Unnamed x)"
  by (auto simp: COMMAND_of_def COMMAND_code_def nth_enumerators_named split: if_splits)

lemma unhandled_iff:
  assumes "\<And>x. c = Unnamed x \<Longrightarrow> 33 \<le> COMMAND_code (Unnamed x)"
  shows "Luna_visitCommand c w = logger_log ERROR ''Command not handled: %d\<newline>'' [Num (COMMAND_code c)] w
      \<longleftrightarrow> 14 \<le> COMMAND_code c" (is ?luna)
    and "Titan_visitCommand c w = logger_log ERROR ''Command not handled: %d\<newline>'' [Num (COMMAND_code c)] w
      \<longleftrightarrow> COMMAND_code c \<in> {17, 18} \<or> 20 \<le> COMMAND_code c" (is ?titan)
proof -
  show ?luna
    using assms by (cases c) (auto dest: arg_cong [where f = log_calls]
      simp: visit_defs COMMAND_code_def enumerators_def)
  show ?titan
    using assms by (cases c) (auto dest: arg_cong [where f = log_calls]
      simp: visit_defs COMMAND_code_def enumerators_def)
qed

text \<open>A received byte is logged as an unhandled command, carrying the byte and changing
  nothing else of the world, exactly when it is 14 or more (Luna), or 17, 18, or 20 or
  more (Titan).\<close>

lemma unhandled_commands:
  "(Luna_visitCommand (COMMAND_of b) w =
      logger_log ERROR ''Command not handled: %d\<newline>'' [Num (unat b)] w \<longleftrightarrow> 14 \<le> unat b) \<and>
   (Titan_visitCommand (COMMAND_of b) w =
      logger_log ERROR ''Command not handled: %d\<newline>'' [Num (unat b)] w \<longleftrightarrow>
    unat b \<in> {17, 18} \<or> 20 \<le> unat b)"
  using unhandled_iff [of "COMMAND_of b" w, OF COMMAND_of_Unnamed] by (simp only: COMMAND_code_of)

text \<open>After the pin initialisation that main.cpp runs for its engine, a command writes a pin
  that was never made an output exactly when it is a driver 3, 4 or 5 command on Luna, or a
  driver 4 or 5 command on Titan.\<close>

lemma unconfigured_driver_commands:
  "(unconfigured_writes [] (drop (length (calls w)) (calls (Luna_visitCommand c (initialize_pins w)))) \<noteq> []
      \<longleftrightarrow> c \<in> {UNSET_DRIVER3, SET_DRIVER3, UNSET_DRIVER4, SET_DRIVER4, UNSET_DRIVER5, SET_DRIVER5}) \<and>
   (unconfigured_writes [] (drop (length (calls w)) (calls (Titan_visitCommand c (titan_initialize_pins w)))) \<noteq> []
      \<longleftrightarrow> c \<in> {UNSET_DRIVER4, SET_DRIVER4, UNSET_DRIVER5, SET_DRIVER5})"
  unfolding visit_hw init_defs world_fields append_assoc append_eq_conv_conj
  by (cases c; simp add: hw_of_def pin_defs)

lemma sample_numbers:
  "nat_str 750 = ''750''" "nat_str 10000 = ''10000''" "nat_str 1 = ''1''" "nat_str 4750 = ''4750''"
proof -
  have chars: "char_of (48 :: nat) = CHR ''0''" "char_of (49 :: nat) = CHR ''1''"
    "char_of (52 :: nat) = CHR ''4''" "char_of (53 :: nat) = CHR ''5''" "char_of (55 :: nat) = CHR ''7''"
    by code_simp+
  show "nat_str 750 = ''750''" "nat_str 10000 = ''10000''" "nat_str 1 = ''1''" "nat_str 4750 = ''4750''"
    by (simp_all add: nat_str.simps chars)
qed

lemma worker_parameters:
  assumes "config_wf m"
    and "values_of m (''Worker'', ''hotflow_ms'') = nat_str h # hs"
    and "values_of m (''Worker'', ''preignite_ms'') = nat_str p # ps"
    and "values_of m (''Pressure'', ''pressureshutoff_ms'') = nat_str d # ds"
    and "values_of m (''Pressure'', ''shutoff_enabled'') = nat_str e # es"
    and "h < 2 ^ 32" and "p < 2 ^ 32" and "d < 2 ^ 32" and "e < 2 ^ 32"
  shows "ign_args (fst (new_WorkerVisitor m raw temp w)) =
     \<lparr>burn_time = of_nat h, preigniteTime = of_nat p, pressureShutoffDelay = of_nat d, shutoffEnabled = (e \<noteq> 0)\<rparr>"
proof -
  have widen: "ucast (of_nat n :: u32) = (of_nat n :: u64)" if "n < 2 ^ 32" for n
    using that by (simp add: word_unat_eq_iff unsigned_ucast_eq unsigned_of_nat take_bit_nat_eq_self)
  have e: "(of_nat e :: u32) \<noteq> 0 \<longleftrightarrow> e \<noteq> 0"
    using assms(9) by (simp add: word_unat_eq_iff unsigned_of_nat take_bit_nat_eq_self)
  show ?thesis
    using e assms(6-8) getInt_value [OF assms(1)] getBool_value [OF assms(1)] assms(2-5)
    by (auto simp: new_WorkerVisitor_def Let_def ign_args_def widen)
qed



end
