(* ===== verification/Resfet_Time.thy ===== *)
theory Resfet_Time
  imports Resfet_Base
begin

text \<open>
  Time stamps (include/time/time.hpp, src/time/time.cpp). A reading of
  \<open>CLOCK_REALTIME\<close> is a \<open>timespec\<close>; the static \<open>start_time\<close> is passed and returned.
  Everything is computed on unsigned 64-bit integers, so a reading before the start
  time wraps. The calendar fields \<open>localtime_r\<close> returns are an argument of
  \<open>get_formatted_time\<close>.
\<close>

section \<open>Elapsed time\<close>

type_synonym timestamp_t = u64

record timespec =
  tv_sec :: int
  tv_nsec :: int

definition get_elapsed_time_ns :: "timestamp_t \<Rightarrow> timespec \<Rightarrow> timestamp_t" where
  "get_elapsed_time_ns start_time tp =
     word_of_int (tv_sec tp) * 1000000000 + word_of_int (tv_nsec tp) - start_time"

definition get_elapsed_time_us :: "timestamp_t \<Rightarrow> timespec \<Rightarrow> timestamp_t" where
  "get_elapsed_time_us start_time tp = get_elapsed_time_ns start_time tp div 1000"

definition get_elapsed_time_ms :: "timestamp_t \<Rightarrow> timespec \<Rightarrow> timestamp_t" where
  "get_elapsed_time_ms start_time tp = get_elapsed_time_us start_time tp div 1000"

definition get_elapsed_time_s :: "timestamp_t \<Rightarrow> timespec \<Rightarrow> timestamp_t" where
  "get_elapsed_time_s start_time tp = get_elapsed_time_ms start_time tp div 1000"

definition set_start_time :: "timespec \<Rightarrow> timestamp_t \<Rightarrow> timestamp_t" where
  "set_start_time tp start_time =
     (if start_time = 0 then get_elapsed_time_ns start_time tp else start_time)"

text \<open>The nanoseconds a reading stands for, and the readings of the years 1970 to 2554, which
  64 bits can hold.\<close>

definition clock_ns :: "timespec \<Rightarrow> nat" where
  "clock_ns tp = nat (tv_sec tp) * 1000000000 + nat (tv_nsec tp)"

definition clock_ok :: "timespec \<Rightarrow> bool" where
  "clock_ok tp \<longleftrightarrow> 0 \<le> tv_sec tp \<and> 0 \<le> tv_nsec tp \<and> tv_nsec tp < 1000000000 \<and> clock_ns tp < 2 ^ 64"

lemma word_of_clock:
  "clock_ok tp \<Longrightarrow> (word_of_int (tv_sec tp) * 1000000000 + word_of_int (tv_nsec tp) :: u64) =
     word_of_nat (clock_ns tp)"
  by (simp add: clock_ok_def clock_ns_def)

lemma get_elapsed_time_ns_word:
  "clock_ok tp \<Longrightarrow> get_elapsed_time_ns st tp = word_of_nat (clock_ns tp) - st"
  by (simp add: get_elapsed_time_ns_def word_of_clock)

lemma unat_clock: "clock_ok tp \<Longrightarrow> unat (word_of_nat (clock_ns tp) :: u64) = clock_ns tp"
  by (simp add: clock_ok_def unsigned_of_nat take_bit_nat_eq_self)

lemma elapsed_ns_after:
  "clock_ok tp \<Longrightarrow> unat st \<le> clock_ns tp \<Longrightarrow> unat (get_elapsed_time_ns st tp) = clock_ns tp - unat st"
  using unat_clock by (simp add: get_elapsed_time_ns_word unat_diff_no_wrap)

lemma elapsed_ns_before:
  "clock_ok tp \<Longrightarrow> clock_ns tp < unat st \<Longrightarrow>
   unat (get_elapsed_time_ns st tp) = 2 ^ 64 - (unat st - clock_ns tp)"
  using unat_clock by (simp add: get_elapsed_time_ns_word unat_diff_wrap)

lemma unat_elapsed_units:
  "unat (get_elapsed_time_us st tp) = unat (get_elapsed_time_ns st tp) div 1000"
  "unat (get_elapsed_time_ms st tp) = unat (get_elapsed_time_ns st tp) div 1000000"
  "unat (get_elapsed_time_s st tp) = unat (get_elapsed_time_ns st tp) div 1000000000"
  by (simp_all add: get_elapsed_time_us_def get_elapsed_time_ms_def get_elapsed_time_s_def
      unat_div div_mult2_eq [symmetric])

lemma set_start_time_clock:
  "clock_ok tp \<Longrightarrow> set_start_time tp 0 = word_of_nat (clock_ns tp)"
  by (simp add: set_start_time_def get_elapsed_time_ns_word)

section \<open>Formatted time\<close>

text \<open>\<open>printf\<close> with a zero-padded minimum width.\<close>

definition pad_nat :: "nat \<Rightarrow> nat \<Rightarrow> string" where
  "pad_nat k n = replicate (k - length (nat_str n)) (CHR ''0'') @ nat_str n"

definition pad_int :: "nat \<Rightarrow> int \<Rightarrow> string" where
  "pad_int k i =
     (if i < 0 then CHR ''-'' # pad_nat (k - 1) (nat (- i)) else pad_nat k (nat i))"

record tm =
  tm_year :: int
  tm_mon :: int
  tm_mday :: int
  tm_hour :: int
  tm_min :: int
  tm_sec :: int

definition MAX_TIME_BUF_LEN :: nat where "MAX_TIME_BUF_LEN = 128"

definition format_tm :: "tm \<Rightarrow> string" where
  "format_tm date =
     pad_int 4 (tm_year date + 1900) @ ''-'' @ pad_int 2 (tm_mon date + 1) @ ''-'' @
     pad_int 2 (tm_mday date) @ ''T'' @ pad_int 2 (tm_hour date) @ '':'' @
     pad_int 2 (tm_min date) @ '':'' @ pad_int 2 (tm_sec date)"

definition get_formatted_time :: "tm \<Rightarrow> string" where
  "get_formatted_time date = take (MAX_TIME_BUF_LEN - 1) (format_tm date)"

text \<open>The fields \<open>localtime_r\<close> documents, in the years 0 to 9999.\<close>

definition tm_ok :: "tm \<Rightarrow> bool" where
  "tm_ok d \<longleftrightarrow> - 1900 \<le> tm_year d \<and> tm_year d \<le> 8099 \<and> 0 \<le> tm_mon d \<and> tm_mon d \<le> 11 \<and>
     1 \<le> tm_mday d \<and> tm_mday d \<le> 31 \<and> 0 \<le> tm_hour d \<and> tm_hour d \<le> 23 \<and>
     0 \<le> tm_min d \<and> tm_min d \<le> 59 \<and> 0 \<le> tm_sec d \<and> tm_sec d \<le> 60"

lemma length_pad_nat: "0 < k \<Longrightarrow> n < 10 ^ k \<Longrightarrow> length (pad_nat k n) = k"
  using length_nat_str [of k n] by (simp add: pad_nat_def)

lemma digits_value_pad_nat [simp]: "digits_value (pad_nat k n) = n"
proof -
  have "digits_value (replicate j (CHR ''0'') @ s) = digits_value s" for j s
    by (induction j) (simp_all add: digits_value_def is_digit_def)
  then show ?thesis by (simp add: pad_nat_def)
qed

lemma pad_nat_inj: "pad_nat k a = pad_nat k b \<longleftrightarrow> a = b"
  by (metis digits_value_pad_nat)

lemma pad_nat_digits: "\<forall>c \<in> set (pad_nat k n). is_digit c"
  using nat_str_digits by (auto simp: pad_nat_def is_digit_def)

lemma pad_int_nat: "0 \<le> i \<Longrightarrow> pad_int k i = pad_nat k (nat i)"
  by (simp add: pad_int_def)

lemma format_tm_fields:
  assumes "tm_ok d"
  shows "format_tm d = pad_nat 4 (nat (tm_year d + 1900)) @ ''-'' @ pad_nat 2 (nat (tm_mon d + 1)) @ ''-'' @
     pad_nat 2 (nat (tm_mday d)) @ ''T'' @ pad_nat 2 (nat (tm_hour d)) @ '':'' @
     pad_nat 2 (nat (tm_min d)) @ '':'' @ pad_nat 2 (nat (tm_sec d))"
    and "length (pad_nat 4 (nat (tm_year d + 1900))) = 4" "length (pad_nat 2 (nat (tm_mon d + 1))) = 2"
      "length (pad_nat 2 (nat (tm_mday d))) = 2" "length (pad_nat 2 (nat (tm_hour d))) = 2"
      "length (pad_nat 2 (nat (tm_min d))) = 2" "length (pad_nat 2 (nat (tm_sec d))) = 2"
  using assms by (simp add: tm_ok_def format_tm_def pad_int_nat)
    (use assms in \<open>auto intro!: length_pad_nat simp: tm_ok_def\<close>)

lemma length_formatted: "tm_ok d \<Longrightarrow> length (get_formatted_time d) = 19"
  using format_tm_fields [of d] by (simp add: get_formatted_time_def MAX_TIME_BUF_LEN_def)

lemma get_formatted_time_format: "tm_ok d \<Longrightarrow> get_formatted_time d = format_tm d"
  using format_tm_fields [of d] by (simp add: get_formatted_time_def MAX_TIME_BUF_LEN_def)

lemma formatted_chars: "tm_ok d \<Longrightarrow> c \<in> set (get_formatted_time d) \<Longrightarrow> is_digit c \<or> c \<in> set ''-T:''"
  unfolding get_formatted_time_format
  by (simp only: format_tm_fields set_append) (use pad_nat_digits in auto)

lemma formatted_inj:
  assumes "tm_ok d" and "tm_ok e" and "get_formatted_time d = get_formatted_time e"
  shows "d = e"
proof -
  note d = format_tm_fields [OF assms(1)] and e = format_tm_fields [OF assms(2)]
  have eq: "format_tm d = format_tm e"
    using assms get_formatted_time_format by simp
  have "tm_year d = tm_year e \<and> tm_mon d = tm_mon e \<and> tm_mday d = tm_mday e \<and>
      tm_hour d = tm_hour e \<and> tm_min d = tm_min e \<and> tm_sec d = tm_sec e"
    using eq assms(1,2) unfolding d(1) e(1) tm_ok_def
    by (simp add: d(2-) e(2-) append_eq_append_conv pad_nat_inj nat_eq_iff2)
  then show ?thesis by simp
qed

section \<open>Properties\<close>

text \<open>C35: once the start time is set, every elapsed time is the whole number of its units since
  then, and a later \<open>set_start_time\<close> changes nothing; a clock reading before the start time
  wraps, so the elapsed milliseconds are then those of 64 bits less the difference.\<close>

theorem elapsed_since_start:
  assumes "clock_ok t0" and "clock_ok t" and "clock_ns t0 \<noteq> 0"
  shows "set_start_time t (set_start_time t0 0) = set_start_time t0 0 \<and>
     (let st = set_start_time t0 0; d = clock_ns t - clock_ns t0 in
      if clock_ns t0 \<le> clock_ns t then
        unat (get_elapsed_time_ns st t) = d \<and> unat (get_elapsed_time_us st t) = d div 10 ^ 3 \<and>
        unat (get_elapsed_time_ms st t) = d div 10 ^ 6 \<and> unat (get_elapsed_time_s st t) = d div 10 ^ 9
      else unat (get_elapsed_time_ms st t) = (2 ^ 64 - (clock_ns t0 - clock_ns t)) div 10 ^ 6)"
proof -
  let ?st = "word_of_nat (clock_ns t0) :: u64"
  have st: "set_start_time t0 0 = ?st" "unat ?st = clock_ns t0"
    using assms by (simp_all only: set_start_time_clock unat_clock)
  then have "?st \<noteq> 0" using assms(3) by (metis unat_0)
  then show ?thesis
    using elapsed_ns_after [OF assms(2), of ?st] elapsed_ns_before [OF assms(2), of ?st] st
    by (simp add: set_start_time_def unat_elapsed_units Let_def)
qed

theorem elapsed_since_start_witness:
  "let st = set_start_time \<lparr>tv_sec = 1600000000, tv_nsec = 5000000\<rparr> 0 in
     unat (get_elapsed_time_ms st \<lparr>tv_sec = 1600000001, tv_nsec = 4000000\<rparr>) = 999"
  using elapsed_since_start [of "\<lparr>tv_sec = 1600000000, tv_nsec = 5000000\<rparr>"
      "\<lparr>tv_sec = 1600000001, tv_nsec = 4000000\<rparr>"]
  by (simp add: clock_ok_def clock_ns_def Let_def)

text \<open>For the dates \<open>localtime_r\<close> returns in the years 0 to 9999 the formatted time has 19
  characters, so it fits its 128-byte buffer, and different dates have different formatted
  times.\<close>

lemma formatted_time_names_the_second:
  assumes "tm_ok d" and "tm_ok e"
  shows "length (get_formatted_time d) = 19 \<and>
     (get_formatted_time d = get_formatted_time e \<longleftrightarrow> d = e)"
  using assms length_formatted formatted_inj by blast

lemma formatted_time_names_the_second_witness:
  "length (get_formatted_time \<lparr>tm_year = 119, tm_mon = 8, tm_mday = 17, tm_hour = 9, tm_min = 5, tm_sec = 0\<rparr>) = 19"
  using formatted_time_names_the_second
    [of "\<lparr>tm_year = 119, tm_mon = 8, tm_mday = 17, tm_hour = 9, tm_min = 5, tm_sec = 0\<rparr>"
      "\<lparr>tm_year = 119, tm_mon = 8, tm_mday = 17, tm_hour = 9, tm_min = 5, tm_sec = 0\<rparr>"]
  by (simp add: tm_ok_def)

end
