(* ===== verification/Resfet_Ignition.thy ===== *)
theory Resfet_Ignition
  imports Resfet_Visitor Resfet_Time
begin

text \<open>
  The ignition monitor thread (\<open>ignThreadFunc\<close> of src/visitor/worker_visitor.cpp) and its
  interleaving with the command thread and the sensor threads.

  \<open>monitor_step\<close> executes the thread from one access of shared state to the next: a
  program counter \<open>pc\<close> names the statement to execute, and a step reads or writes at most
  one of \<open>ignitionOn\<close>, \<open>pressureShutoff\<close> and the pins. The clock reading of a step
  (\<open>get_elapsed_time_ms\<close>) is its argument. \<open>mainOpen\<close> is not initialised by the code, so
  it is part of the initial state. A command is executed in the same grain, as the
  sequence of its actions, and \<open>sys_step\<close> interleaves the three threads.
\<close>

section \<open>The monitor thread\<close>

datatype pc =
    Entering        \<comment> \<open>top of the main loop\<close>
  | Polling         \<comment> \<open>the wait for \<open>ignitionOn\<close>\<close>
  | Beginning       \<comment> \<open>a burn was signalled: take the time\<close>
  | Igniting        \<comment> \<open>drive the igniter\<close>
  | Testing         \<comment> \<open>condition of the burn loop\<close>
  | Opening         \<comment> \<open>main valve\<close>
  | Checking        \<comment> \<open>pressure shutoff\<close>
  | Stopping        \<comment> \<open>emergency stop\<close>
  | Sleeping        \<comment> \<open>sleep and take the time\<close>
  | Closing_main    \<comment> \<open>after the burn loop\<close>
  | Closing_igniter
  | Clearing

record monitor =
  pc :: pc
  mainOpen :: bool
  initTime :: u64
  timeElapsed :: u64

fun monitor_step :: "burn_config \<Rightarrow> u64 \<Rightarrow> monitor \<times> world \<Rightarrow> monitor \<times> world" where
  "monitor_step cfg now (m, w) =
    (case pc m of
       Entering \<Rightarrow> (m\<lparr>pc := Polling\<rparr>, logger_log INFO ''Monitor thread waiting for burn...\<newline>'' [] w)
     | Polling \<Rightarrow> (if ignitionOn w then m\<lparr>pc := Beginning\<rparr> else m, w)
     | Beginning \<Rightarrow>
         (m\<lparr>pc := Igniting, initTime := now, timeElapsed := 0\<rparr>,
          logger_log INFO ''Received burn signal, starting burn\<newline>'' [] w)
     | Igniting \<Rightarrow> (m\<lparr>pc := Testing\<rparr>, gpio_write IGN_START HIGH w)
     | Testing \<Rightarrow> (m\<lparr>pc := if timeElapsed m < burn_time cfg then Opening else Closing_main\<rparr>, w)
     | Opening \<Rightarrow>
         (if \<not> mainOpen m \<and> timeElapsed m > preigniteTime cfg
          then (m\<lparr>pc := Checking, mainOpen := True\<rparr>,
                logger_log INFO ''Preignite time elapsed, opening main valve.\<newline>'' []
                  (gpio_write MAIN_VALVE HIGH w))
          else (m\<lparr>pc := Checking\<rparr>, w))
     | Checking \<Rightarrow>
         (if timeElapsed m > pressureShutoffDelay cfg \<and> shutoffEnabled cfg \<and> pressureShutoff w
          then (m\<lparr>pc := Closing_main\<rparr>,
                logger_log INFO ''Pressure shutoff indicated, closing valve and ending burn.\<newline>'' [] w)
          else (m\<lparr>pc := Stopping\<rparr>, w))
     | Stopping \<Rightarrow>
         (if \<not> ignitionOn w
          then (m\<lparr>pc := Closing_main\<rparr>,
                logger_log INFO ''Emergency stop indicated, closing valve and ending burn.\<newline>'' [] w)
          else (m\<lparr>pc := Sleeping\<rparr>, w))
     | Sleeping \<Rightarrow> (m\<lparr>pc := Testing, timeElapsed := now - initTime m\<rparr>, w)
     | Closing_main \<Rightarrow> (m\<lparr>pc := Closing_igniter\<rparr>, gpio_write MAIN_VALVE LOW w)
     | Closing_igniter \<Rightarrow> (m\<lparr>pc := Clearing\<rparr>, gpio_write IGN_START LOW w)
     | Clearing \<Rightarrow>
         (m\<lparr>pc := Entering, mainOpen := False\<rparr>,
          logger_log INFO ''Burn has ended.\<newline>'' [] (w\<lparr>ignitionOn := False\<rparr>)))"

text \<open>The thread starts with a log entry; \<open>raw\<close> is the uninitialised \<open>mainOpen\<close>.\<close>

definition monitor_start :: "bool \<Rightarrow> world \<Rightarrow> monitor \<times> world" where
  "monitor_start raw w =
     (\<lparr>pc = Entering, mainOpen = raw, initTime = 0, timeElapsed = 0\<rparr>,
      logger_log INFO ''Ignition monitor thread started\<newline>'' [] w)"

text \<open>A run against an environment that chooses, before each step, the clock reading and what
  the sensor thread last stored in the shutoff flag.\<close>

fun monitor_run :: "burn_config \<Rightarrow> (u64 \<times> bool) list \<Rightarrow> monitor \<times> world \<Rightarrow> monitor \<times> world" where
  "monitor_run cfg [] s = s"
| "monitor_run cfg ((now, b) # env) (m, w) =
     monitor_run cfg env (monitor_step cfg now (m, w\<lparr>pressureShutoff := b\<rparr>))"

lemma monitor_run_append:
  "monitor_run cfg (xs @ ys) s = monitor_run cfg ys (monitor_run cfg xs s)"
proof (induction cfg xs s rule: monitor_run.induct)
  case (2 cfg now b env m w)
  then show ?case by simp
qed simp

section \<open>The command thread in the same grain\<close>

datatype action =
    Log_entry LogLevel string "log_arg list"
  | Write RPiGPIOPin level
  | Set_ignition bool
  | Set_shutoff bool

fun do_action :: "action \<Rightarrow> world \<Rightarrow> world" where
  "do_action (Log_entry lv fmt args) w = logger_log lv fmt args w"
| "do_action (Write p l) w = gpio_write p l w"
| "do_action (Set_ignition b) w = w\<lparr>ignitionOn := b\<rparr>"
| "do_action (Set_shutoff b) w = w\<lparr>pressureShutoff := b\<rparr>"

definition drive_actions :: "string \<Rightarrow> RPiGPIOPin \<Rightarrow> level \<Rightarrow> action list" where
  "drive_actions fmt p l = [Log_entry INFO fmt [Pin p], Write p l]"

definition command_actions :: "COMMAND \<Rightarrow> action list" where
  "command_actions c =
    (case c of
       UNSET_DRIVER1 \<Rightarrow> drive_actions ''Writing driver 1 off using pin %d\<newline>'' DRIVER1 LOW
     | SET_DRIVER1 \<Rightarrow> drive_actions ''Writing driver 1 on using pin %d\<newline>'' DRIVER1 HIGH
     | UNSET_DRIVER2 \<Rightarrow> drive_actions ''Writing driver 2 off using pin %d\<newline>'' DRIVER2 LOW
     | SET_DRIVER2 \<Rightarrow> drive_actions ''Writing driver 2 on using pin %d\<newline>'' DRIVER2 HIGH
     | UNSET_DRIVER3 \<Rightarrow> drive_actions ''Writing driver 3 off using pin %d\<newline>'' DRIVER3 LOW
     | SET_DRIVER3 \<Rightarrow> drive_actions ''Writing driver 3 on using pin %d\<newline>'' DRIVER3 HIGH
     | UNSET_DRIVER4 \<Rightarrow> drive_actions ''Writing driver 4 off using pin %d\<newline>'' DRIVER4 LOW
     | SET_DRIVER4 \<Rightarrow> drive_actions ''Writing driver 4 on using pin %d\<newline>'' DRIVER4 HIGH
     | UNSET_DRIVER5 \<Rightarrow> drive_actions ''Writing driver 5 off using pin %d\<newline>'' DRIVER5 LOW
     | SET_DRIVER5 \<Rightarrow> drive_actions ''Writing driver 5 on using pin %d\<newline>'' DRIVER5 HIGH
     | UNSET_DRIVER6 \<Rightarrow> drive_actions ''Writing driver 6 off using pin %d\<newline>'' DRIVER6 LOW
     | SET_DRIVER6 \<Rightarrow> drive_actions ''Writing driver 6 on using pin %d\<newline>'' DRIVER6 HIGH
     | START_IGNITION \<Rightarrow>
         [Log_entry INFO ''Starting ignition\<newline>'' [], Set_ignition True, Set_shutoff False]
     | STOP_IGNITION \<Rightarrow>
         [Log_entry INFO ''Stopping ignition\<newline>'' [], Set_ignition False,
          Write MAIN_VALVE LOW, Write IGN_START LOW]
     | _ \<Rightarrow> [Log_entry ERROR ''Command not handled: %d\<newline>'' [Num (COMMAND_code c)]])"

lemma command_actions_visit: "fold do_action (command_actions c) w = Worker_visitCommand c w"
  by (cases c) (simp_all add: command_actions_def drive_actions_def visit_defs)

section \<open>Interleaving\<close>

text \<open>\<open>allowed\<close> are the commands the operator may send.\<close>

type_synonym system = "monitor \<times> action list \<times> world"

inductive sys_step :: "burn_config \<Rightarrow> COMMAND set \<Rightarrow> system \<Rightarrow> system \<Rightarrow> bool"
  for cfg allowed where
  monitor: "monitor_step cfg now (m, w) = (m', w') \<Longrightarrow> sys_step cfg allowed (m, todo, w) (m', todo, w')"
| receive: "c \<in> allowed \<Longrightarrow> sys_step cfg allowed (m, [], w) (m, command_actions c, w)"
| act: "sys_step cfg allowed (m, a # todo, w) (m, todo, do_action a w)"
| sensor: "sys_step cfg allowed (m, todo, w) (m, todo, w\<lparr>pressureShutoff := b\<rparr>)"

abbreviation reaches :: "burn_config \<Rightarrow> COMMAND set \<Rightarrow> system \<Rightarrow> system \<Rightarrow> bool" where
  "reaches cfg allowed \<equiv> (sys_step cfg allowed)\<^sup>*\<^sup>*"

text \<open>The commands that do not write the main valve or igniter high themselves.\<close>

definition monitored :: "COMMAND set" where
  "monitored = {c. c \<noteq> SET_DRIVER1 \<and> c \<noteq> SET_DRIVER6}"

text \<open>When the system starts: the monitor at its beginning and the pins initialised.\<close>

definition started :: "bool \<Rightarrow> world \<Rightarrow> system" where
  "started raw w = (let (m, w') = monitor_start raw w in (m, [], w'))"

section \<open>Invariants\<close>

abbreviation not_high :: "world \<Rightarrow> RPiGPIOPin \<Rightarrow> bool" where
  "not_high w p \<equiv> commanded (calls w) p \<noteq> Some HIGH"

text \<open>An action that does not itself open the main valve or fire the igniter.\<close>

fun harmless :: "action \<Rightarrow> bool" where
  "harmless (Write p l) = (l = LOW \<or> p \<noteq> MAIN_VALVE \<and> p \<noteq> IGN_START)"
| "harmless _ = True"

lemma pins_distinct [simp]: "MAIN_VALVE \<noteq> IGN_START" "IGN_START \<noteq> MAIN_VALVE"
  by (simp_all add: pin_defs)

lemma harmless_commands: "c \<in> monitored \<Longrightarrow> a \<in> set (command_actions c) \<Longrightarrow> harmless a"
  by (cases c) (auto simp: command_actions_def drive_actions_def monitored_def pin_defs)

lemma harmless_not_high:
  "harmless a \<Longrightarrow> p \<in> {MAIN_VALVE, IGN_START} \<Longrightarrow> not_high w p \<Longrightarrow> not_high (do_action a w) p"
  by (cases a) auto

text \<open>Where the program counter is while both pins must be closed, and while the main valve
  must be.\<close>

definition idle_pcs :: "pc set" where
  "idle_pcs = {Entering, Polling, Beginning, Igniting, Clearing}"

definition closed_inv :: "system \<Rightarrow> bool" where
  "closed_inv s = (case s of (m, todo, w) \<Rightarrow>
     (\<forall>a \<in> set todo. harmless a) \<and>
     (pc m \<in> idle_pcs \<longrightarrow> not_high w IGN_START) \<and>
     (pc m \<in> insert Closing_igniter idle_pcs \<or> \<not> mainOpen m \<longrightarrow> not_high w MAIN_VALVE))"

lemma closed_inv_monitor:
  assumes "closed_inv (m, todo, w)"
  shows "closed_inv (fst (monitor_step cfg now (m, w)), todo, snd (monitor_step cfg now (m, w)))"
  using assms by (cases "pc m"; simp add: closed_inv_def idle_pcs_def)

lemma closed_inv_step:
  assumes "sys_step cfg allowed s s'" and "allowed \<subseteq> monitored" and "closed_inv s"
  shows "closed_inv s'"
  using assms
proof (induction rule: sys_step.induct)
  case (monitor now m w m' w' todo)
  then show ?case using closed_inv_monitor [of m todo w cfg now] by simp
next
  case (receive c m w)
  then show ?case using harmless_commands by (auto simp: closed_inv_def)
next
  case (act m a todo w)
  then show ?case
    using harmless_not_high [of a MAIN_VALVE w] harmless_not_high [of a IGN_START w]
    by (auto simp: closed_inv_def)
next
  case (sensor m todo w b)
  then show ?case by (simp add: closed_inv_def)
qed

lemma closed_inv_reaches:
  assumes "reaches cfg allowed s s'" and "allowed \<subseteq> monitored" and "closed_inv s"
  shows "closed_inv s'"
  using assms by (induction rule: rtranclp_induct) (auto intro: closed_inv_step)

lemma closed_inv_started:
  "not_high w MAIN_VALVE \<Longrightarrow> not_high w IGN_START \<Longrightarrow> closed_inv (started raw w)"
  by (simp add: closed_inv_def started_def monitor_start_def)

text \<open>With \<open>mainOpen\<close> initially false it is false until the monitor opens the valve, and the
  valve is only opened inside the time of the burn.\<close>

definition phase_inv :: "burn_config \<Rightarrow> system \<Rightarrow> bool" where
  "phase_inv cfg s = (case s of (m, todo, w) \<Rightarrow>
     (pc m \<in> {Entering, Polling, Beginning, Igniting} \<longrightarrow> \<not> mainOpen m) \<and>
     (pc m = Opening \<longrightarrow> timeElapsed m < burn_time cfg))"

lemma phase_inv_monitor:
  assumes "phase_inv cfg (m, todo, w)"
  shows "phase_inv cfg (fst (monitor_step cfg now (m, w)), todo, snd (monitor_step cfg now (m, w)))"
  using assms by (cases "pc m"; simp add: phase_inv_def)

lemma phase_inv_step:
  assumes "sys_step cfg allowed s s'" and "phase_inv cfg s"
  shows "phase_inv cfg s'"
  using assms
proof (induction rule: sys_step.induct)
  case (monitor now m w m' w' todo)
  then show ?case using phase_inv_monitor [of cfg m todo w now] by simp
qed (simp_all add: phase_inv_def)

lemma phase_inv_reaches:
  assumes "reaches cfg allowed s s'" and "phase_inv cfg s"
  shows "phase_inv cfg s'"
  using assms by (induction rule: rtranclp_induct) (auto intro: phase_inv_step)

section \<open>The abstract burn\<close>

datatype phase = Idle | Preignition | Hotflow | Ending

text \<open>What a burn may do, given the two flags and the elapsed time.\<close>

inductive phase_step :: "burn_config \<Rightarrow> bool \<Rightarrow> bool \<Rightarrow> u64 \<Rightarrow> phase \<Rightarrow> phase \<Rightarrow> bool" for cfg where
  begin_burn: "phase_step cfg True shut t Idle Preignition"
| open_valve: "preigniteTime cfg < t \<Longrightarrow> t < burn_time cfg \<Longrightarrow> phase_step cfg ign shut t Preignition Hotflow"
| time_over: "burn_time cfg \<le> t \<Longrightarrow> p \<in> {Preignition, Hotflow} \<Longrightarrow> phase_step cfg ign shut t p Ending"
| shutoff: "shutoffEnabled cfg \<Longrightarrow> pressureShutoffDelay cfg < t \<Longrightarrow> p \<in> {Preignition, Hotflow} \<Longrightarrow>
    phase_step cfg ign True t p Ending"
| stop: "p \<in> {Preignition, Hotflow} \<Longrightarrow> phase_step cfg False shut t p Ending"
| closed: "phase_step cfg ign shut t Ending Idle"

inductive_simps phase_step_simps [simp]:
  "phase_step cfg ign shut t Idle p" "phase_step cfg ign shut t Preignition p"
  "phase_step cfg ign shut t Hotflow p" "phase_step cfg ign shut t Ending p"

definition phase_of :: "monitor \<Rightarrow> phase" where
  "phase_of m =
    (case pc m of
       Entering \<Rightarrow> Idle | Polling \<Rightarrow> Idle | Clearing \<Rightarrow> Idle
     | Closing_main \<Rightarrow> Ending | Closing_igniter \<Rightarrow> Ending
     | _ \<Rightarrow> if mainOpen m then Hotflow else Preignition)"

lemma monitor_step_phase:
  assumes "phase_inv cfg (m, todo, w)"
  shows "phase_of (fst (monitor_step cfg now (m, w))) = phase_of m \<or>
     phase_step cfg (ignitionOn w) (pressureShutoff w) (timeElapsed m) (phase_of m)
       (phase_of (fst (monitor_step cfg now (m, w))))"
  using assms
  by (cases "pc m"; simp add: phase_inv_def phase_of_def not_less)

lemma sys_step_phase:
  assumes "sys_step cfg allowed s s'" and "phase_inv cfg s"
  shows "phase_of (fst s') = phase_of (fst s) \<or>
     phase_step cfg (ignitionOn (snd (snd s))) (pressureShutoff (snd (snd s))) (timeElapsed (fst s))
       (phase_of (fst s)) (phase_of (fst s'))"
  using assms
proof (induction rule: sys_step.induct)
  case (monitor now m w m' w' todo)
  then show ?case using monitor_step_phase [of cfg m todo w now] by simp
qed simp_all

section \<open>Runs of the monitor\<close>

text \<open>How many more steps the monitor makes before it waits again, once the ignition flag is
  off and stays off.\<close>

fun steps_to_wait :: "pc \<Rightarrow> nat" where
  "steps_to_wait Beginning = 10" | "steps_to_wait Igniting = 9" | "steps_to_wait Sleeping = 9"
| "steps_to_wait Testing = 8" | "steps_to_wait Opening = 7" | "steps_to_wait Checking = 6"
| "steps_to_wait Stopping = 5" | "steps_to_wait Closing_main = 4"
| "steps_to_wait Closing_igniter = 3" | "steps_to_wait Clearing = 2"
| "steps_to_wait Entering = 1" | "steps_to_wait Polling = 0"

lemma steps_to_wait_bound: "steps_to_wait p \<le> 10"
  by (cases p) simp_all

lemma off_step:
  assumes "\<not> ignitionOn w"
  shows "\<not> ignitionOn (snd (monitor_step cfg now (m, w)))"
    and "steps_to_wait (pc (fst (monitor_step cfg now (m, w)))) \<le> steps_to_wait (pc m) - 1"
  using assms by (cases "pc m"; (simp; fail))+

lemma off_run:
  assumes "\<not> ignitionOn w" and "steps_to_wait (pc m) \<le> length env"
    and "monitor_run cfg env (m, w) = (m', w')"
  shows "pc m' = Polling \<and> \<not> ignitionOn w'"
  using assms
proof (induction env arbitrary: m w)
  case Nil
  then show ?case by (cases "pc m") auto
next
  case (Cons e env)
  obtain now b where e: "e = (now, b)" by (cases e)
  let ?w = "w\<lparr>pressureShutoff := b\<rparr>"
  let ?s = "monitor_step cfg now (m, ?w)"
  have off: "\<not> ignitionOn ?w" using Cons.prems(1) by simp
  have "steps_to_wait (pc (fst ?s)) \<le> length env"
    using off_step(2) [OF off, of cfg now m] Cons.prems(2) by simp
  moreover have "monitor_run cfg env (fst ?s, snd ?s) = (m', w')"
    using Cons.prems(3) e by simp
  ultimately show ?case
    using Cons.IH off_step(1) [OF off] by blast
qed

lemma closed_inv_run:
  "closed_inv (m, [], w) \<Longrightarrow> monitor_run cfg env (m, w) = (m', w') \<Longrightarrow> closed_inv (m', [], w')"
proof (induction env arbitrary: m w)
  case (Cons e env)
  obtain now b where e: "e = (now, b)" by (cases e)
  let ?w = "w\<lparr>pressureShutoff := b\<rparr>"
  have "closed_inv (m, [], ?w)" using Cons.prems(1) by (simp add: closed_inv_def)
  then show ?case
    using Cons.IH [OF closed_inv_monitor [of m "[]" ?w cfg now]] Cons.prems(2) e by simp
qed simp

lemma closing_run:
  assumes "pc m = Closing_main" and "length env = 3" and "monitor_run cfg env (m, w) = (m', w')"
  shows "pc m' = Entering \<and> \<not> mainOpen m' \<and> \<not> ignitionOn w' \<and>
     commanded (calls w') MAIN_VALVE = Some LOW \<and> commanded (calls w') IGN_START = Some LOW"
proof -
  obtain n0 b0 n1 b1 n2 b2 where "env = [(n0, b0), (n1, b1), (n2, b2)]"
    using assms(2) by (cases env; cases "tl env"; cases "tl (tl env)"; auto)
  then show ?thesis
    using assms(1,3) by (auto simp: commanded_Cons commanded_append map_add_def)
qed

text \<open>One round of the burn loop: five steps, unless the burn ends inside.\<close>

lemma burn_round:
  assumes "pc m = Testing" and "length env = 5"
  shows "(\<exists>k \<le> 4. pc (fst (monitor_run cfg (take k env) (m, w))) = Closing_main) \<or>
     (let m' = fst (monitor_run cfg env (m, w)) in
      pc m' = Testing \<and> initTime m' = initTime m \<and> timeElapsed m' = fst (env ! 4) - initTime m)"
proof -
  obtain e0 e1 e2 e3 e4 where env: "env = [e0, e1, e2, e3, e4]"
    using assms(2) by (auto simp: numeral_eq_Suc length_Suc_conv)
  let ?s = "\<lambda>k. monitor_run cfg (take k env) (m, w)"
  obtain n0 b0 n1 b1 n2 b2 n3 b3 n4 b4 where es:
    "e0 = (n0, b0)" "e1 = (n1, b1)" "e2 = (n2, b2)" "e3 = (n3, b3)" "e4 = (n4, b4)"
    by (metis prod.exhaust_sel)
  show ?thesis
  proof (cases "pc (fst (?s 1)) = Closing_main \<or> pc (fst (?s 3)) = Closing_main \<or> pc (fst (?s 4)) = Closing_main")
    case True
    moreover have "(1 :: nat) \<le> 4" "(3 :: nat) \<le> 4" "(4 :: nat) \<le> 4" by simp_all
    ultimately show ?thesis by blast
  next
    case False
    then show ?thesis
      using assms(1) by (auto simp: env es Let_def split: if_splits)
  qed
qed

lemma burn_rounds:
  assumes "pc m = Testing" and "length env = 5 * N"
  shows "(\<exists>k \<le> 5 * N. pc (fst (monitor_run cfg (take k env) (m, w))) = Closing_main) \<or>
     (let m' = fst (monitor_run cfg env (m, w)) in
      pc m' = Testing \<and> initTime m' = initTime m \<and>
      (0 < N \<longrightarrow> timeElapsed m' = fst (env ! (5 * N - 1)) - initTime m))"
  using assms(2)
proof (induction N arbitrary: env)
  case 0
  then show ?case using assms(1) by simp
next
  case (Suc N)
  let ?front = "take (5 * N) env" and ?last = "drop (5 * N) env"
  obtain m1 w1 where run1: "monitor_run cfg ?front (m, w) = (m1, w1)" by fastforce
  have whole: "monitor_run cfg env (m, w) = monitor_run cfg ?last (m1, w1)"
    using monitor_run_append [of cfg ?front ?last "(m, w)"] run1 by simp
  have later: "monitor_run cfg (take (5 * N + k) env) (m, w) = monitor_run cfg (take k ?last) (m1, w1)" for k
    using monitor_run_append [of cfg ?front "take k ?last" "(m, w)"] run1 Suc.prems
    by (simp add: take_add)
  have IH: "(\<exists>k \<le> 5 * N. pc (fst (monitor_run cfg (take k ?front) (m, w))) = Closing_main) \<or>
      (pc m1 = Testing \<and> initTime m1 = initTime m)"
    using Suc.IH [of ?front] Suc.prems run1 by (auto simp: Let_def)
  then show ?case
  proof
    assume "\<exists>k \<le> 5 * N. pc (fst (monitor_run cfg (take k ?front) (m, w))) = Closing_main"
    then obtain k where "k \<le> 5 * N" "pc (fst (monitor_run cfg (take k env) (m, w))) = Closing_main"
      by (auto simp: min_def)
    then show ?thesis by (intro disjI1 exI [of _ k]) simp
  next
    assume m1: "pc m1 = Testing \<and> initTime m1 = initTime m"
    have len: "length ?last = 5" using Suc.prems by simp
    have nth: "?last ! 4 = env ! (5 * Suc N - 1)" using Suc.prems by (simp add: add.commute)
    have "pc m1 = Testing" using m1 by simp
    from burn_round [OF this len, of cfg w1] show ?thesis
    proof (elim disjE)
      assume "\<exists>k \<le> 4. pc (fst (monitor_run cfg (take k ?last) (m1, w1))) = Closing_main"
      then obtain k where "k \<le> 4" "pc (fst (monitor_run cfg (take (5 * N + k) env) (m, w))) = Closing_main"
        using later by auto
      then show ?thesis by (intro disjI1 exI [of _ "5 * N + k"]) simp
    qed (use m1 whole nth in \<open>simp_all add: Let_def\<close>)
  qed
qed

lemma burn_closes:
  assumes "pc m = Testing" and "length env = 5 * N + 1" and "unat (burn_time cfg) \<le> 50 * N"
    and "\<forall>k < N. 50 * (k + 1) \<le> unat (fst (env ! (5 * k + 4)) - initTime m)"
  shows "\<exists>k \<le> 5 * N + 1. pc (fst (monitor_run cfg (take k env) (m, w))) = Closing_main"
proof -
  let ?front = "take (5 * N) env"
  obtain m1 w1 where run1: "monitor_run cfg ?front (m, w) = (m1, w1)" by fastforce
  have front: "(\<exists>k \<le> 5 * N. pc (fst (monitor_run cfg (take k ?front) (m, w))) = Closing_main) \<or>
      (pc m1 = Testing \<and> (0 < N \<longrightarrow> timeElapsed m1 = fst (env ! (5 * N - 1)) - initTime m))"
    using burn_rounds [OF assms(1), of ?front N cfg w] assms(2) run1 by (auto simp: Let_def)
  then show ?thesis
  proof
    assume "\<exists>k \<le> 5 * N. pc (fst (monitor_run cfg (take k ?front) (m, w))) = Closing_main"
    then obtain k where "k \<le> 5 * N" "pc (fst (monitor_run cfg (take k env) (m, w))) = Closing_main"
      by (auto simp: min_def)
    then show ?thesis by (intro exI [of _ k]) simp
  next
    assume m1: "pc m1 = Testing \<and> (0 < N \<longrightarrow> timeElapsed m1 = fst (env ! (5 * N - 1)) - initTime m)"
    have "\<not> timeElapsed m1 < burn_time cfg"
    proof (cases N)
      case 0
      then show ?thesis using assms(3) by (simp add: word_less_nat_alt)
    next
      case (Suc j)
      then have "50 * N \<le> unat (fst (env ! (5 * N - 1)) - initTime m)"
        using assms(4)[rule_format, of j] by (simp add: add.commute)
      then show ?thesis using m1 assms(3) Suc by (simp add: word_less_nat_alt)
    qed
    moreover obtain now b where last: "drop (5 * N) env = [(now, b)]"
      using assms(2) by (cases "drop (5 * N) env"; cases "tl (drop (5 * N) env)") (auto simp: drop_Cons' dest: arg_cong [where f = length])
    moreover have "monitor_run cfg env (m, w) = monitor_run cfg (drop (5 * N) env) (m1, w1)"
      using monitor_run_append [of cfg ?front "drop (5 * N) env" "(m, w)"] run1
      by (simp only: append_take_drop_id)
    ultimately have "pc (fst (monitor_run cfg env (m, w))) = Closing_main"
      using m1 by simp
    then show ?thesis using assms(2) by (intro exI [of _ "5 * N + 1"]) simp
  qed
qed

end
