(* ===== verification/Resfet_Burn.thy ===== *)
theory Resfet_Burn
  imports Resfet_Ignition
begin

text \<open>
  The properties of a burn: the ignition monitor refines the abstract burn of
  Resfet_Ignition, keeps the valves closed outside a burn, and ends every burn; and the
  races between the monitor and the command thread.
\<close>

section \<open>Safety under interleaving\<close>


definition burn_1s :: burn_config where
  "burn_1s = \<lparr>burn_time = 1000, preigniteTime = 200, pressureShutoffDelay = 500, shutoffEnabled = True\<rparr>"


text \<open>As long as the operator sends no direct main-valve or igniter command, whatever the
  interleaving of the threads and whatever \<open>mainOpen\<close> held, the main valve and the igniter
  are not driven high while no burn is in progress, and the main valve is not driven high
  before the monitor has opened it.\<close>

lemma valves_closed_outside_burn:
  assumes "allowed \<subseteq> monitored" and "not_high w0 MAIN_VALVE" and "not_high w0 IGN_START"
    and "reaches cfg allowed (started raw w0) (m, todo, w)"
  shows "(pc m \<in> {Entering, Polling, Beginning, Clearing} \<longrightarrow>
       not_high w MAIN_VALVE \<and> not_high w IGN_START) \<and>
     (\<not> mainOpen m \<longrightarrow> not_high w MAIN_VALVE)"
  using closed_inv_reaches [OF assms(4,1) closed_inv_started [OF assms(2,3)]]
  by (auto simp: closed_inv_def idle_pcs_def)

lemma valves_closed_outside_burn_witness:
  "not_high (snd (snd (started True (initialize_pins idle_world)))) MAIN_VALVE"
proof -
  have w0: "not_high (initialize_pins idle_world) MAIN_VALVE" "not_high (initialize_pins idle_world) IGN_START"
    by (simp_all add: init_defs commanded_append commanded_Cons map_add_def pin_defs idle_world_def)
  obtain m todo w where s: "started True (initialize_pins idle_world) = (m, todo, w)"
    by (metis prod_cases3)
  have "pc m = Entering" using s by (auto simp: started_def monitor_start_def)
  then show ?thesis
    using valves_closed_outside_burn [of monitored "initialize_pins idle_world" burn_1s True m todo w]
      w0 s by simp
qed

text \<open>Once the ignition flag is off and stays off, ten steps of the monitor, whatever the
  clock and the pressure flag do meanwhile, bring it back to waiting with the main valve and
  the igniter not driven high.\<close>

lemma stop_ends_burn:
  assumes "not_high w0 MAIN_VALVE" and "not_high w0 IGN_START"
    and "reaches cfg monitored (started raw w0) (m, [], w)" and "\<not> ignitionOn w"
    and "length env \<ge> 10"
  shows "let (m', w') = monitor_run cfg env (m, w) in
     pc m' = Polling \<and> \<not> ignitionOn w' \<and> not_high w' MAIN_VALVE \<and> not_high w' IGN_START"
proof -
  obtain m' w' where run: "monitor_run cfg env (m, w) = (m', w')" by fastforce
  have "closed_inv (m, [], w)"
    using closed_inv_reaches [OF assms(3) subset_refl closed_inv_started [OF assms(1,2)]] .
  then have "closed_inv (m', [], w')" using closed_inv_run run by blast
  moreover have "pc m' = Polling \<and> \<not> ignitionOn w'"
    using off_run [OF assms(4) _ run] steps_to_wait_bound [of "pc m"] assms(5) by linarith
  ultimately show ?thesis using run by (simp add: closed_inv_def idle_pcs_def)
qed

lemma stop_ends_burn_witness:
  "let (m, w) = monitor_start False idle_world in
   let (m', w') = monitor_run burn_1s (replicate 12 (7, True)) (m, w) in
     pc m' = Polling \<and> not_high w' MAIN_VALVE \<and> not_high w' IGN_START"
proof -
  obtain m w where s: "monitor_start False idle_world = (m, w)" by fastforce
  have "started False idle_world = (m, [], w)" by (simp add: started_def s)
  moreover have "\<not> ignitionOn w" using s by (auto simp: monitor_start_def idle_world_def)
  ultimately show ?thesis
    using stop_ends_burn [of idle_world burn_1s False m w "replicate 12 (7, True)"] s
    by (simp add: idle_world_def case_prod_beta)
qed

section \<open>Every burn ends\<close>

lemma closing_after:
  assumes "k + 3 \<le> length env" and "pc (fst (monitor_run cfg (take k env) (m, w))) = Closing_main"
  shows "\<exists>m' w'. monitor_run cfg (take (k + 3) env) (m, w) = (m', w') \<and>
     pc m' = Entering \<and> \<not> mainOpen m' \<and> \<not> ignitionOn w' \<and>
     commanded (calls w') MAIN_VALVE = Some LOW \<and> commanded (calls w') IGN_START = Some LOW"
proof -
  obtain m1 w1 where run1: "monitor_run cfg (take k env) (m, w) = (m1, w1)" by fastforce
  obtain m2 w2 where run2: "monitor_run cfg (take 3 (drop k env)) (m1, w1) = (m2, w2)" by fastforce
  have "monitor_run cfg (take (k + 3) env) (m, w) = (m2, w2)"
    using monitor_run_append [of cfg "take k env" "take 3 (drop k env)" "(m, w)"] run1 run2
    by (simp add: take_add)
  moreover have "length (take 3 (drop k env)) = 3" using assms(1) by simp
  ultimately show ?thesis
    using closing_run [OF _ _ run2] assms(2) run1 by auto
qed

lemma burn_closed:
  assumes "pc m = Testing" and "length env = 5 * N + 4" and "unat (burn_time cfg) \<le> 50 * N"
    and "\<forall>k < N. 50 * (k + 1) \<le> unat (fst (env ! (5 * k + 4)) - initTime m)"
  shows "\<exists>k \<le> 5 * N + 4. \<exists>m' w'. monitor_run cfg (take k env) (m, w) = (m', w') \<and>
     pc m' = Entering \<and> \<not> mainOpen m' \<and> \<not> ignitionOn w' \<and>
     commanded (calls w') MAIN_VALVE = Some LOW \<and> commanded (calls w') IGN_START = Some LOW"
proof -
  have "\<forall>k < N. 50 * (k + 1) \<le> unat (fst (take (5 * N + 1) env ! (5 * k + 4)) - initTime m)"
    using assms(4) by simp
  then obtain k where k: "k \<le> 5 * N + 1" "pc (fst (monitor_run cfg (take k env) (m, w))) = Closing_main"
    using burn_closes [OF assms(1) _ assms(3), of "take (5 * N + 1) env" w] assms(2)
    by (auto simp: min_def split: if_splits)
  have "k + 3 \<le> length env" "k + 3 \<le> 5 * N + 4" using k(1) assms(2) by simp_all
  then show ?thesis using closing_after [OF _ k(2)] by blast
qed

text \<open>C14: if each sleep of the monitor takes at least its 50 milliseconds on the clock, a burn
  ends after at most one poll per started 50 milliseconds of burn time: the monitor is back
  at the top of its loop with both pins low, the ignition flag off and the main-valve flag
  cleared, whatever the pressure flag does.\<close>

theorem burn_ends:
  assumes "pc m = Testing" and "length env = 5 * N + 4" and "N = (unat (burn_time cfg) + 49) div 50"
    and "\<forall>k < N. 50 * (k + 1) \<le> unat (fst (env ! (5 * k + 4)) - initTime m)"
  shows "\<exists>k \<le> 5 * N + 4. \<exists>m' w'. monitor_run cfg (take k env) (m, w) = (m', w') \<and>
     pc m' = Entering \<and> \<not> mainOpen m' \<and> \<not> ignitionOn w' \<and>
     commanded (calls w') MAIN_VALVE = Some LOW \<and> commanded (calls w') IGN_START = Some LOW"
proof -
  have "unat (burn_time cfg) \<le> 50 * N" using assms(3) by linarith
  then show ?thesis using burn_closed [OF assms(1,2) _ assms(4)] by blast
qed

theorem burn_ends_witness:
  "let m = \<lparr>pc = Testing, mainOpen = False, initTime = 7, timeElapsed = 0\<rparr>;
       cfg = burn_1s\<lparr>burn_time := 60\<rparr>;
       env = [(7, False), (7, False), (7, True), (7, False), (58, False),
              (60, False), (61, False), (62, False), (63, True), (120, False),
              (120, False), (120, False), (120, False), (120, False)] in
   \<exists>k \<le> 14. \<exists>m' w'. monitor_run cfg (take k env) (m, idle_world\<lparr>ignitionOn := True\<rparr>) = (m', w') \<and>
     pc m' = Entering \<and> \<not> ignitionOn w' \<and> commanded (calls w') IGN_START = Some LOW"
proof -
  let ?m = "\<lparr>pc = Testing, mainOpen = False, initTime = 7, timeElapsed = 0\<rparr>"
  let ?cfg = "burn_1s\<lparr>burn_time := 60\<rparr>"
  let ?env = "[(7, False), (7, False), (7, True), (7, False), (58, False),
              (60, False), (61, False), (62, False), (63, True), (120, False),
              (120, False), (120, False), (120, False), (120, False)] :: (u64 \<times> bool) list"
  have "\<forall>k < 2. 50 * (k + 1) \<le> unat (fst (?env ! (5 * k + 4)) - initTime ?m)"
    by (auto simp: less_2_cases_iff)
  then have "\<exists>k \<le> 5 * 2 + 4. \<exists>m' w'. monitor_run ?cfg (take k ?env) (?m, idle_world\<lparr>ignitionOn := True\<rparr>) = (m', w') \<and>
     pc m' = Entering \<and> \<not> mainOpen m' \<and> \<not> ignitionOn w' \<and>
     commanded (calls w') MAIN_VALVE = Some LOW \<and> commanded (calls w') IGN_START = Some LOW"
    by (intro burn_ends) (simp_all add: burn_1s_def)
  then show ?thesis unfolding Let_def by auto
qed

section \<open>The pressure shutoff\<close>

text \<open>The steps until the burn loop is left, once the pressure flag stays on and the clock is past
  the delay.\<close>

definition steps_to_shutoff :: "burn_config \<Rightarrow> monitor \<Rightarrow> nat" where
  "steps_to_shutoff cfg m =
     (let late = pressureShutoffDelay cfg < timeElapsed m in
      case pc m of
        Testing \<Rightarrow> if late then 3 else 8
      | Opening \<Rightarrow> if late then 2 else 7
      | Checking \<Rightarrow> if late then 1 else 6
      | Stopping \<Rightarrow> 5
      | Sleeping \<Rightarrow> 4
      | _ \<Rightarrow> 0)"

definition burn_pcs :: "pc set" where
  "burn_pcs = {Testing, Opening, Checking, Stopping, Sleeping}"

lemma shutoff_step:
  assumes "pc m \<in> burn_pcs" and "shutoffEnabled cfg" and "pressureShutoff w"
    and "pressureShutoffDelay cfg < now - initTime m"
  shows "initTime (fst (monitor_step cfg now (m, w))) = initTime m \<and>
     (pc (fst (monitor_step cfg now (m, w))) = Closing_main \<or>
      pc (fst (monitor_step cfg now (m, w))) \<in> burn_pcs \<and>
      steps_to_shutoff cfg (fst (monitor_step cfg now (m, w))) < steps_to_shutoff cfg m)"
  using assms by (cases "pc m") (auto simp: burn_pcs_def steps_to_shutoff_def)

lemma shutoff_run:
  assumes "pc m \<in> burn_pcs" and "shutoffEnabled cfg" and "steps_to_shutoff cfg m \<le> length env"
    and "\<forall>(now, b) \<in> set env. b \<and> pressureShutoffDelay cfg < now - initTime m"
  shows "\<exists>k \<le> length env. pc (fst (monitor_run cfg (take k env) (m, w))) = Closing_main"
  using assms
proof (induction env arbitrary: m w)
  case Nil
  then have False by (auto simp: burn_pcs_def steps_to_shutoff_def Let_def split: if_splits)
  then show ?case ..
next
  case (Cons e env)
  obtain now b where e: "e = (now, b)" by (cases e)
  let ?w = "w\<lparr>pressureShutoff := b\<rparr>"
  obtain m1 w1 where s: "monitor_step cfg now (m, ?w) = (m1, w1)" by fastforce
  have run: "monitor_run cfg (take (Suc k) (e # env)) (m, w) = monitor_run cfg (take k env) (m1, w1)" for k
    using s e by (simp del: monitor_step.simps)
  have step: "initTime m1 = initTime m"
    "pc m1 = Closing_main \<or> pc m1 \<in> burn_pcs \<and> steps_to_shutoff cfg m1 < steps_to_shutoff cfg m"
    using shutoff_step [OF Cons.prems(1,2), of ?w now] Cons.prems(4) e s by auto
  show ?case
  proof (cases "pc m1 = Closing_main")
    case True
    then show ?thesis using run [of 0] by (intro exI [of _ "Suc 0"]) simp
  next
    case False
    then have "\<exists>k \<le> length env. pc (fst (monitor_run cfg (take k env) (m1, w1))) = Closing_main"
      using Cons.IH [of m1 w1] step Cons.prems(2-4) by (auto simp: e)
    then show ?thesis using run by (metis Suc_le_mono length_Cons)
  qed
qed

text \<open>C15: with the shutoff enabled, the pressure flag on and the clock past the delay after the start
  of the burn, a burn is over after at most eleven steps of the monitor, wherever in its
  loop it is and even if it opens the main valve on the way: both pins are low and the
  ignition flag is off.\<close>

theorem pressure_shutoff_ends_burn:
  assumes "pc m \<in> {Testing, Opening, Checking, Stopping, Sleeping}" and "shutoffEnabled cfg" and "length env = 11"
    and "\<forall>(now, b) \<in> set env. b \<and> pressureShutoffDelay cfg < now - initTime m"
  shows "\<exists>k \<le> 11. \<exists>m' w'. monitor_run cfg (take k env) (m, w) = (m', w') \<and>
     pc m' = Entering \<and> \<not> mainOpen m' \<and> \<not> ignitionOn w' \<and>
     commanded (calls w') MAIN_VALVE = Some LOW \<and> commanded (calls w') IGN_START = Some LOW"
proof -
  let ?front = "take 8 env"
  have m: "pc m \<in> burn_pcs" using assms(1) by (simp add: burn_pcs_def)
  have "steps_to_shutoff cfg m \<le> 8"
    by (cases "pc m") (simp_all add: steps_to_shutoff_def Let_def)
  moreover have "\<forall>(now, b) \<in> set ?front. b \<and> pressureShutoffDelay cfg < now - initTime m"
    using assms(4) by (meson in_set_takeD)
  ultimately have "\<exists>k \<le> length ?front. pc (fst (monitor_run cfg (take k ?front) (m, w))) = Closing_main"
    using assms(3) by (intro shutoff_run [OF m assms(2)]) simp_all
  then obtain k where k: "k \<le> 8" "pc (fst (monitor_run cfg (take k env) (m, w))) = Closing_main"
    using assms(3) by (auto simp: min_def split: if_splits)
  then have "k + 3 \<le> length env" "k + 3 \<le> 11" using assms(3) by simp_all
  then show ?thesis using closing_after [OF _ k(2)] by blast
qed

theorem pressure_shutoff_ends_burn_witness:
  "let m = \<lparr>pc = Checking, mainOpen = False, initTime = 100, timeElapsed = 450\<rparr> in
   \<exists>k \<le> 11. \<exists>m' w'. monitor_run burn_1s (take k (replicate 11 (700, True))) (m, idle_world\<lparr>ignitionOn := True\<rparr>) = (m', w') \<and>
     pc m' = Entering \<and> \<not> ignitionOn w' \<and> commanded (calls w') MAIN_VALVE = Some LOW"
proof -
  let ?m = "\<lparr>pc = Checking, mainOpen = False, initTime = 100, timeElapsed = 450\<rparr>"
  have "\<forall>(now, b) \<in> set (replicate 11 (700, True)). b \<and> pressureShutoffDelay burn_1s < now - initTime ?m"
    by (simp add: burn_1s_def)
  moreover have "shutoffEnabled burn_1s" by (simp add: burn_1s_def)
  ultimately show ?thesis
    using pressure_shutoff_ends_burn [of ?m burn_1s "replicate 11 (700, True)" "idle_world\<lparr>ignitionOn := True\<rparr>"]
    unfolding Let_def by auto
qed

section \<open>The clock set back\<close>

lemma elapsed_wraps:
  assumes "clock_ok t1" and "clock_ok t2" and "unat st \<le> clock_ns t1"
    and "clock_ns t2 + 1000000 \<le> clock_ns t1" and "clock_ns t1 \<le> clock_ns t2 + 2 ^ 63"
  shows "2 ^ 32 \<le> unat (get_elapsed_time_ms st t2 - get_elapsed_time_ms st t1)"
proof -
  let ?a = "get_elapsed_time_ms st t1" and ?b = "get_elapsed_time_ms st t2"
  have a: "unat ?a = (clock_ns t1 - unat st) div 1000000"
    using elapsed_ns_after [OF assms(1,3)] by (simp add: unat_elapsed_units)
  have small: "clock_ns t1 < 2 ^ 64" using assms(1) by (simp add: clock_ok_def)
  then have a_small: "unat ?a < 2 ^ 45" using a by simp
  show ?thesis
  proof (cases "unat st \<le> clock_ns t2")
    case True
    then have "unat ?b = (clock_ns t2 - unat st) div 1000000"
      using elapsed_ns_after [OF assms(2) True] by (simp add: unat_elapsed_units)
    moreover have "(clock_ns t2 - unat st) div 1000000 < (clock_ns t1 - unat st) div 1000000"
      using assms(4) True by simp
    ultimately have "unat ?b < unat ?a" using a by simp
    then show ?thesis using unat_diff_wrap [of ?b ?a] a_small by simp
  next
    case False
    then have b: "unat ?b = (2 ^ 64 - (unat st - clock_ns t2)) div 1000000"
      using elapsed_ns_before [OF assms(2), of st] by (simp add: unat_elapsed_units)
    have gap: "unat st - clock_ns t2 \<le> 2 ^ 63" "clock_ns t1 - unat st + (unat st - clock_ns t2) \<le> 2 ^ 63"
      using assms(3,5) False by linarith+
    have "2 ^ 32 + (clock_ns t1 - unat st) div 1000000 \<le> (2 ^ 64 - (unat st - clock_ns t2)) div 1000000"
    proof -
      have "2 ^ 32 * 1000000 + (clock_ns t1 - unat st) \<le> 2 ^ 64 - (unat st - clock_ns t2)"
        using gap by simp
      then have "(2 ^ 32 * 1000000 + (clock_ns t1 - unat st)) div 1000000 \<le> (2 ^ 64 - (unat st - clock_ns t2)) div 1000000"
        by (rule div_le_mono)
      moreover have "(k * 1000000 + x) div 1000000 = k + x div 1000000" for k x :: nat by simp
      ultimately show ?thesis by metis
    qed
    then have le: "2 ^ 32 + unat ?a \<le> unat ?b" unfolding a b .
    then have "unat (?b - ?a) = unat ?b - unat ?a" by (intro unat_diff_no_wrap) linarith
    then show ?thesis using le by linarith
  qed
qed

text \<open>If the system clock is set back during a burn by a millisecond or more (and less than
  292 years), the elapsed time wraps above every 32-bit burn time: the next test ends the
  burn, and four steps later both pins are low.\<close>

lemma clock_set_back_ends_burn:
  assumes "pc m = Sleeping" and "burn_time cfg = ucast (hot :: u32)"
    and "clock_ok t1" and "clock_ok t2" and "unat st \<le> clock_ns t1"
    and "initTime m = get_elapsed_time_ms st t1"
    and "clock_ns t2 + 1000000 \<le> clock_ns t1" and "clock_ns t1 \<le> clock_ns t2 + 2 ^ 63"
    and "length env = 4"
  shows "let (m', w') = monitor_run cfg ((get_elapsed_time_ms st t2, b) # env) (m, w) in
     pc m' = Entering \<and> \<not> ignitionOn w' \<and>
     commanded (calls w') MAIN_VALVE = Some LOW \<and> commanded (calls w') IGN_START = Some LOW"
proof -
  obtain e env' where env: "env = e # env'" "length env' = 3"
    using assms(9) by (cases env) auto
  obtain n1 b1 where e: "e = (n1, b1)" by (cases e)
  have "unat (burn_time cfg) < 2 ^ 32"
    using unat_less(3) [of hot] take_bit_nat_eq_self [of "unat hot" 64]
    by (simp add: assms(2) unsigned_ucast_eq)
  then have over: "\<not> get_elapsed_time_ms st t2 - initTime m < burn_time cfg"
    using elapsed_wraps [OF assms(3,4,5,7,8)] assms(6) by (simp add: word_less_nat_alt)
  let ?m1 = "m\<lparr>timeElapsed := get_elapsed_time_ms st t2 - initTime m, pc := Closing_main\<rparr>"
  obtain m' w' where run: "monitor_run cfg env' (?m1, w\<lparr>pressureShutoff := b1\<rparr>) = (m', w')" by fastforce
  have "monitor_run cfg ((get_elapsed_time_ms st t2, b) # env) (m, w) = (m', w')"
    using assms(1) over run by (simp add: env e)
  then show ?thesis using closing_run [OF _ env(2) run] by simp
qed

lemma clock_set_back_ends_burn_witness:
  "let m = \<lparr>pc = Sleeping, mainOpen = True,
             initTime = get_elapsed_time_ms 5 \<lparr>tv_sec = 1600000010, tv_nsec = 0\<rparr>, timeElapsed = 300\<rparr>;
       t2 = get_elapsed_time_ms 5 \<lparr>tv_sec = 1600000000, tv_nsec = 0\<rparr>;
       (m', w') = monitor_run burn_1s ((t2, False) # replicate 4 (t2, False)) (m, idle_world\<lparr>ignitionOn := True\<rparr>) in
     pc m' = Entering \<and> commanded (calls w') MAIN_VALVE = Some LOW"
proof -
  let ?t1 = "\<lparr>tv_sec = 1600000010, tv_nsec = 0\<rparr>" and ?t2 = "\<lparr>tv_sec = 1600000000, tv_nsec = 0\<rparr>"
  let ?m = "\<lparr>pc = Sleeping, mainOpen = True, initTime = get_elapsed_time_ms 5 ?t1, timeElapsed = 300\<rparr>"
  have ok: "clock_ok ?t1" "clock_ok ?t2" by (simp_all add: clock_ok_def clock_ns_def)
  have "burn_time burn_1s = ucast (1000 :: u32)" by (simp add: burn_1s_def)
  then show ?thesis
    using clock_set_back_ends_burn [of ?m burn_1s 1000 ?t1 ?t2 5 "replicate 4 (get_elapsed_time_ms 5 ?t2, False)"
        False "idle_world\<lparr>ignitionOn := True\<rparr>", OF _ _ ok]
    unfolding Let_def by (simp add: clock_ns_def case_prod_beta del: monitor_run.simps)
qed

section \<open>Races and the uninitialised flag\<close>

text \<open>The main-valve flag set: the monitor writes the valve high no more until it clears the
  flag, and the igniter only when it begins a burn.\<close>

lemma no_reopen_step:
  assumes "mainOpen m"
  shows "pc m \<noteq> Clearing \<Longrightarrow> mainOpen (fst (monitor_step cfg now (m, w)))"
    and "not_high w MAIN_VALVE \<Longrightarrow> not_high (snd (monitor_step cfg now (m, w))) MAIN_VALVE"
    and "pc m \<noteq> Igniting \<Longrightarrow> not_high w IGN_START \<Longrightarrow> not_high (snd (monitor_step cfg now (m, w))) IGN_START"
  using assms by (cases "pc m"; (simp; fail))+

lemma no_reopen_run:
  assumes "mainOpen m" and "not_high w MAIN_VALVE"
    and "\<forall>k < length env. pc (fst (monitor_run cfg (take k env) (m, w))) \<noteq> Clearing"
  shows "mainOpen (fst (monitor_run cfg env (m, w))) \<and> not_high (snd (monitor_run cfg env (m, w))) MAIN_VALVE"
  using assms
proof (induction env arbitrary: m w)
  case (Cons e env)
  obtain now b where e: "e = (now, b)" by (cases e)
  let ?w = "w\<lparr>pressureShutoff := b\<rparr>"
  obtain m1 w1 where s: "monitor_step cfg now (m, ?w) = (m1, w1)" by (meson surj_pair)
  have run: "monitor_run cfg (take (Suc k) (e # env)) (m, w) = monitor_run cfg (take k env) (m1, w1)" for k
    using s e by (simp del: monitor_step.simps)
  have "pc m \<noteq> Clearing" using Cons.prems(3) by force
  then have "mainOpen m1" "not_high w1 MAIN_VALVE"
    using no_reopen_step(1,2) [OF Cons.prems(1), where cfg = cfg and now = now and w = ?w] Cons.prems(2) s
    by (simp_all del: monitor_step.simps)
  moreover have "\<forall>k < length env. pc (fst (monitor_run cfg (take k env) (m1, w1))) \<noteq> Clearing"
    using Cons.prems(3) run by (metis Suc_less_eq length_Cons)
  ultimately show ?case
    using Cons.IH [of m1 w1] s e by (simp del: monitor_step.simps)
qed simp

text \<open>C39: the code does not initialise \<open>mainOpen\<close>: if it happens to be true, the main valve is not
  opened in the whole first burn, at any clock readings and pressure flags.\<close>

theorem uninitialised_main_open:
  assumes "not_high w0 MAIN_VALVE"
    and "\<forall>k < length env. pc (fst (monitor_run cfg (take k env) (monitor_start True w0))) \<noteq> Clearing"
  shows "not_high (snd (monitor_run cfg env (monitor_start True w0))) MAIN_VALVE"
  using assms no_reopen_run [of "fst (monitor_start True w0)" "snd (monitor_start True w0)" env cfg]
  by (simp add: monitor_start_def)

theorem uninitialised_main_open_witness:
  "let env = [(0, False), (0, False), (0, False), (0, False), (0, False), (0, False), (0, False),
              (0, False), (300, False), (300, False), (300, False)];
       w0 = idle_world\<lparr>ignitionOn := True\<rparr> in
   not_high (snd (monitor_run burn_1s env (monitor_start True w0))) MAIN_VALVE \<and>
   commanded (calls (snd (monitor_run burn_1s env (monitor_start False w0)))) MAIN_VALVE = Some HIGH"
proof -
  let ?env = "[(0, False), (0, False), (0, False), (0, False), (0, False), (0, False), (0, False),
              (0, False), (300, False), (300, False), (300, False)] :: (u64 \<times> bool) list"
  let ?w0 = "idle_world\<lparr>ignitionOn := True\<rparr>"
  have "\<forall>k < length ?env. pc (fst (monitor_run burn_1s (take k ?env) (monitor_start True ?w0))) \<noteq> Clearing"
    by (simp add: All_less_Suc2 monitor_start_def idle_world_def burn_1s_def)
  then have "not_high (snd (monitor_run burn_1s ?env (monitor_start True ?w0))) MAIN_VALVE"
    by (intro uninitialised_main_open) (simp add: idle_world_def)
  moreover have "commanded (calls (snd (monitor_run burn_1s ?env (monitor_start False ?w0)))) MAIN_VALVE = Some HIGH"
    by (simp add: monitor_start_def burn_1s_def idle_world_def commanded_Cons map_add_def)
  ultimately show ?thesis unfolding Let_def by blast
qed

definition loop_pcs :: "pc set" where
  "loop_pcs = {Testing, Opening, Checking, Stopping, Sleeping, Closing_main, Closing_igniter}"

lemma loop_step:
  "pc m \<in> loop_pcs \<Longrightarrow> pc (fst (monitor_step cfg now (m, w))) \<in> insert Clearing loop_pcs"
  by (cases "pc m"; simp add: loop_pcs_def)

lemma no_refire_run:
  assumes "mainOpen m" and "pc m \<in> insert Clearing loop_pcs" and "not_high w IGN_START"
    and "\<forall>k < length env. pc (fst (monitor_run cfg (take k env) (m, w))) \<noteq> Clearing"
  shows "not_high (snd (monitor_run cfg env (m, w))) IGN_START"
  using assms
proof (induction env arbitrary: m w)
  case (Cons e env)
  obtain now b where e: "e = (now, b)" by (cases e)
  let ?w = "w\<lparr>pressureShutoff := b\<rparr>"
  obtain m1 w1 where s: "monitor_step cfg now (m, ?w) = (m1, w1)" by (meson surj_pair)
  have run: "monitor_run cfg (take (Suc k) (e # env)) (m, w) = monitor_run cfg (take k env) (m1, w1)" for k
    using s e by (simp del: monitor_step.simps)
  have here: "pc m \<noteq> Clearing" using Cons.prems(4) by force
  then have "pc m \<in> loop_pcs" "pc m \<noteq> Igniting" using Cons.prems(2) by (auto simp: loop_pcs_def)
  then have "pc m1 \<in> insert Clearing loop_pcs" "mainOpen m1" "not_high w1 IGN_START"
    using loop_step [of m cfg now ?w] no_reopen_step [OF Cons.prems(1), where cfg = cfg and now = now and w = ?w]
      Cons.prems(3) here s
    by (simp_all del: monitor_step.simps)
  moreover have "\<forall>k < length env. pc (fst (monitor_run cfg (take k env) (m1, w1))) \<noteq> Clearing"
    using Cons.prems(4) run by (metis Suc_less_eq length_Cons)
  ultimately show ?case
    using Cons.IH [of m1 w1] s e by (simp del: monitor_step.simps)
qed simp



text \<open>A STOP_IGNITION handled between the tests of the monitor's opening step and its write is
  overtaken: the main valve is driven high after the stop, with the ignition flag off, and
  low again once the monitor has run four more steps.\<close>

lemma stop_overtaken:
  assumes "pc m = Opening" and "\<not> mainOpen m" and "preigniteTime cfg < timeElapsed m"
    and "w1 = Worker_visitCommand STOP_IGNITION w"
  shows "let (m2, w2) = monitor_step cfg now (m, w1);
         (m3, w3) = monitor_run cfg [e1, e2, e3, e4] (m2, w2) in
     \<not> ignitionOn w2 \<and> commanded (calls w2) MAIN_VALVE = Some HIGH \<and>
     commanded (calls w3) MAIN_VALVE = Some LOW"
proof -
  obtain n1 b1 n2 b2 n3 b3 n4 b4 where es: "e1 = (n1, b1)" "e2 = (n2, b2)" "e3 = (n3, b3)" "e4 = (n4, b4)"
    by (metis surj_pair)
  let ?m2 = "m\<lparr>pc := Checking, mainOpen := True\<rparr>"
  obtain w2 where step: "monitor_step cfg now (m, w1) = (?m2, w2)" "\<not> ignitionOn w2"
    "commanded (calls w2) MAIN_VALVE = Some HIGH"
    using assms by (simp add: visit_defs commanded_append commanded_Cons map_add_def)
  show ?thesis
  proof (cases "timeElapsed m > pressureShutoffDelay cfg \<and> shutoffEnabled cfg \<and> b1")
    case True
    then show ?thesis using step by (simp add: es commanded_append commanded_Cons map_add_def)
  next
    case False
    then show ?thesis using step by (auto simp: es commanded_append commanded_Cons map_add_def)
  qed
qed

lemma stop_overtaken_witness:
  "let m = \<lparr>pc = Opening, mainOpen = False, initTime = 0, timeElapsed = 300\<rparr>;
       (m2, w2) = monitor_step burn_1s 300 (m, Worker_visitCommand STOP_IGNITION idle_world) in
     \<not> ignitionOn w2 \<and> commanded (calls w2) MAIN_VALVE = Some HIGH"
  using stop_overtaken [of "\<lparr>pc = Opening, mainOpen = False, initTime = 0, timeElapsed = 300\<rparr>" burn_1s
      "Worker_visitCommand STOP_IGNITION idle_world" idle_world 300 "(300, False)" "(300, False)" "(300, False)" "(300, False)"]
  by (simp add: burn_1s_def Let_def case_prod_beta del: monitor_run.simps)

end
