(* ===== verification/Resfet_System.thy ===== *)
theory Resfet_System
  imports Resfet_Rounds Resfet_Burn
begin

text \<open>
  The threads of the program together: the ignition monitor, the command thread and the
  sensor threads over one shared world, in any interleaving of their turns.

  A turn of the monitor is one \<open>monitor_step\<close> and a turn of the command thread one action
  of a handler, as in Resfet_Ignition; a turn of a sensor thread is one pass of the body of
  its loop over the buffers (\<open>sample_ring\<close>), which stores the shutoff flag at most once. The
  iterator over the buffers is \<open>at_ring\<close>, and \<open>returned\<close> says that the thread has ended.
  Where Resfet_Ignition lets the shutoff flag take any value at any time, here the sensor
  threads compute it.
\<close>

section \<open>Threads and turns\<close>

record sensor_thread =
  obj :: PeriodicThread
  locals :: sampler
  at_ring :: nat
  returned :: bool

record stand =
  mon :: monitor
  todo :: "action list"
  threads :: "sensor_thread list"
  shared :: world

datatype turn =
    Monitor_turn u64
  | Receive COMMAND
  | Act
  | Pass nat

definition thread_pass :: "platform \<Rightarrow> sensor_thread \<Rightarrow> world \<Rightarrow> thread_error + (sensor_thread \<times> world)" where
  "thread_pass pf r w =
     (if returned r \<or> rings (locals r) = [] then Inr (r, w)
      else case sample_ring pf (obj r) (at_ring r) (locals r, w) of
             Inl e \<Rightarrow> Inl e
           | Inr (stop, s, w') \<Rightarrow>
               Inr (r\<lparr>locals := s, at_ring := Suc (at_ring r) mod length (rings s), returned := stop\<rparr>, w'))"

fun take_turn :: "burn_config \<Rightarrow> platform \<Rightarrow> turn \<Rightarrow> stand \<Rightarrow> thread_error + stand" where
  "take_turn cfg pf (Monitor_turn now) s =
     (case monitor_step cfg now (mon s, shared s) of (m, w) \<Rightarrow> Inr (s\<lparr>mon := m, shared := w\<rparr>))"
| "take_turn cfg pf (Receive c) s =
     Inr (if todo s = [] then s\<lparr>todo := command_actions c\<rparr> else s)"
| "take_turn cfg pf Act s =
     Inr (case todo s of [] \<Rightarrow> s | a # as \<Rightarrow> s\<lparr>todo := as, shared := do_action a (shared s)\<rparr>)"
| "take_turn cfg pf (Pass k) s =
     (if k < length (threads s) then
        (case thread_pass pf (threads s ! k) (shared s) of
           Inl e \<Rightarrow> Inl e
         | Inr (r, w) \<Rightarrow> Inr (s\<lparr>threads := (threads s)[k := r], shared := w\<rparr>))
      else Inr s)"

fun take_turns :: "burn_config \<Rightarrow> platform \<Rightarrow> turn list \<Rightarrow> stand \<Rightarrow> thread_error + stand" where
  "take_turns cfg pf [] s = Inr s"
| "take_turns cfg pf (t # ts) s =
     (case take_turn cfg pf t s of Inl e \<Rightarrow> Inl e | Inr s' \<Rightarrow> take_turns cfg pf ts s')"

lemma take_turns_append:
  "take_turns cfg pf (ts @ us) s = (case take_turns cfg pf ts s of Inl e \<Rightarrow> Inl e | Inr s' \<Rightarrow> take_turns cfg pf us s')"
  by (induction ts arbitrary: s) (auto split: sum.splits)

section \<open>One pass\<close>

lemma push_data_item_sensor: "push_data_item r t cb = Inr (st, cb') \<Longrightarrow> sensor cb' = sensor cb"
  by (auto simp: push_data_item_def Let_def split: if_splits)

lemma pop_data_item_sensor: "pop_data_item b n cb = Inr (st, b', cb') \<Longrightarrow> sensor cb' = sensor cb"
  by (auto simp: pop_data_item_def Let_def split: if_splits option.splits)

lemma get_data_loop_sensor: "get_data_loop sz bw b cb = Inr (n, b', cb') \<Longrightarrow> sensor cb' = sensor cb"
proof (induction sz bw b cb rule: get_data_loop.induct)
  case (1 sz bw b cb)
  show ?case
    using 1 pop_data_item_sensor
    by (subst (asm) (3) get_data_loop.simps) (fastforce split: if_splits sum.splits prod.splits BUFF_STATUS.splits)
qed

lemma offer_sensor: "offer x cb b = Inr (p, cb', b') \<Longrightarrow> sensor cb' = sensor cb"
  using push_data_item_sensor get_data_loop_sensor
  by (fastforce simp: offer_def get_data_def split: sum.splits prod.splits BUFF_STATUS.splits option.splits)

text \<open>What a thread needs for its reads: its iterator inside the buffers and its sensors
  registered.\<close>

definition connected :: "sensor_thread \<Rightarrow> bool" where
  "connected r \<longleftrightarrow> (rings (locals r) \<noteq> [] \<longrightarrow> at_ring r < length (rings (locals r))) \<and>
     (\<forall>cb \<in> set (rings (locals r)). registered (reader (obj r)) (sensor cb))"

text \<open>The calls on pins other than the chip selects of the ADCs.\<close>

fun valve_call :: "hw_call \<Rightarrow> bool" where
  "valve_call (Gpio_write p l) = (p \<notin> set SENSOR_PINS)"
| "valve_call _ = False"

lemma cs_pin_sensor: "s \<noteq> NUM_SENSORS \<Longrightarrow> cs_pin (sensor_info s) \<in> set SENSOR_PINS"
  using sensor_code_less [of s] by (simp add: sensor_info_def)

lemma read_calls_no_valve: "s \<noteq> NUM_SENSORS \<Longrightarrow> filter valve_call (read_calls s) = []"
  by (simp add: read_calls_def cs_pin_sensor)

lemma commanded_valve_calls:
  "p \<notin> set SENSOR_PINS \<Longrightarrow> commanded (filter valve_call cs) p = commanded cs p"
proof (induction cs rule: rev_induct)
  case (snoc c cs)
  then show ?case by (cases c) auto
qed simp

lemma commanded_reads:
  "s \<noteq> NUM_SENSORS \<Longrightarrow> p \<notin> set SENSOR_PINS \<Longrightarrow> commanded (cs @ read_calls s) p = commanded cs p"
  using commanded_valve_calls [of p "cs @ read_calls s"] commanded_valve_calls [of p cs]
  by (simp add: read_calls_no_valve)

lemma valve_pins [simp]: "MAIN_VALVE \<notin> set SENSOR_PINS" "IGN_START \<notin> set SENSOR_PINS"
  by (simp_all add: SENSOR_PINS_def pin_defs)

lemma sample_ring_world:
  assumes "sample_ring pf th i (s, w) = Inr (stop, s', w')"
    and "registered (reader th) (sensor (rings s ! i))" and "\<not> adc_mutex w" and "i < length (rings s)"
  shows "w' = w\<lparr>calls := calls w @ read_calls (sensor (rings s ! i)), adc_mutex := False,
       pressureShutoff := next_flag pf th (sensor (rings s ! i)) w (combAvg s)\<rparr>"
    and "map sensor (rings s') = map sensor (rings s)"
proof -
  obtain sn where sn: "sensor (rings s ! i) = sn" by blast
  obtain b0 b1 b2 where "spi_answer pf (calls w @ take 2 (read_calls sn)) [24 + channel (sensor_info sn), 0, 0] = (b0, b1, b2)"
    by (metis prod_cases3)
  then obtain r where read: "read_item (plain_char_signed pf) (spi_answer pf) (reader th) (sensor_code sn) w =
      Inr (r, w\<lparr>calls := calls w @ read_calls sn, adc_mutex := False\<rparr>)"
    using read_item_registered [of "reader th" sn w "spi_answer pf" b0 b1 b2] assms(2,3) sn by blast
  have r: "reading_of pf th sn w = r" by (simp add: reading_of_def read)
  show "w' = w\<lparr>calls := calls w @ read_calls (sensor (rings s ! i)), adc_mutex := False,
       pressureShutoff := next_flag pf th (sensor (rings s ! i)) w (combAvg s)\<rparr>"
    using assms(1) unfolding sample_ring_def Let_def fst_conv snd_conv sn read next_flag_def next_avg_def r
    by (cases "sn = PT1") (auto split: sum.splits prod.splits option.splits if_splits)
  have "\<exists>cb'. sensor cb' = sn \<and> rings s' = (rings s)[i := cb']"
    using assms(1) offer_sensor unfolding sample_ring_def Let_def fst_conv snd_conv sn read
    by (fastforce simp: sn split: sum.splits prod.splits option.splits if_splits)
  then show "map sensor (rings s') = map sensor (rings s)"
    using sn assms(4) by (metis list_update_id map_update)
qed

lemma thread_pass_world:
  assumes "thread_pass pf r w = Inr (r', w')" and "connected r" and "\<not> adc_mutex w"
  shows "\<exists>cs b. w' = w\<lparr>calls := calls w @ cs, adc_mutex := False, pressureShutoff := b\<rparr> \<and>
       filter valve_call cs = [] \<and> connected r'"
proof (cases "returned r \<or> rings (locals r) = []")
  case True
  then have "r' = r" "w' = w" using assms(1) by (auto simp: thread_pass_def)
  then show ?thesis
    using assms(2,3) by (intro exI [of _ "[]"] exI [of _ "pressureShutoff w"]) simp
next
  case False
  let ?cb = "rings (locals r) ! at_ring r"
  have i: "at_ring r < length (rings (locals r))" and reg: "registered (reader (obj r)) (sensor ?cb)"
    using assms(2) False by (auto simp: connected_def)
  obtain stop s where run: "sample_ring pf (obj r) (at_ring r) (locals r, w) = Inr (stop, s, w')"
    and r': "r' = r\<lparr>locals := s, at_ring := Suc (at_ring r) mod length (rings s), returned := stop\<rparr>"
    using assms(1) False by (auto simp: thread_pass_def split: sum.splits)
  note w = sample_ring_world [OF run reg assms(3) i]
  have "\<forall>s' \<in> set (map sensor (rings s)). registered (reader (obj r)) s'"
    using assms(2) unfolding w(2) connected_def by simp
  moreover have "length (rings s) = length (rings (locals r))" using w(2) by (metis length_map)
  ultimately have "connected r'" using r' False by (auto simp: connected_def)
  moreover have "filter valve_call (read_calls (sensor ?cb)) = []"
    using reg by (intro read_calls_no_valve) (simp add: registered_def)
  ultimately show ?thesis using w(1) by blast
qed

section \<open>The interleaving is one of Resfet_Ignition\<close>

definition view :: "world \<Rightarrow> world" where
  "view w = w\<lparr>calls := filter valve_call (calls w), adc_mutex := False\<rparr>"

definition view_stand :: "stand \<Rightarrow> system" where
  "view_stand s = (mon s, todo s, view (shared s))"

fun on_valves :: "action \<Rightarrow> bool" where
  "on_valves (Write p l) = (p \<notin> set SENSOR_PINS)"
| "on_valves _ = True"

lemma command_actions_on_valves: "a \<in> set (command_actions c) \<Longrightarrow> on_valves a"
  by (cases c) (auto simp: command_actions_def drive_actions_def pin_defs SENSOR_PINS_def)

lemma view_fields [simp]:
  "ignitionOn (view w) = ignitionOn w" "pressureShutoff (view w) = pressureShutoff w"
  "calls (view w) = filter valve_call (calls w)" "log_calls (view w) = log_calls w"
  by (simp_all add: view_def)

lemma view_ops:
  "view (gpio_write p l w) = (if p \<in> set SENSOR_PINS then view w else gpio_write p l (view w))"
  "view (logger_log lv fmt args w) = logger_log lv fmt args (view w)"
  "view (w\<lparr>ignitionOn := b\<rparr>) = (view w)\<lparr>ignitionOn := b\<rparr>"
  "view (w\<lparr>pressureShutoff := b\<rparr>) = (view w)\<lparr>pressureShutoff := b\<rparr>"
  by (simp_all add: view_def gpio_write_def do_calls_def logger_log_def)

lemma view_action: "on_valves a \<Longrightarrow> view (do_action a w) = do_action a (view w)"
  by (cases a) (simp_all add: view_ops)

lemma view_monitor:
  "monitor_step cfg now (m, view w) = (case monitor_step cfg now (m, w) of (m', w') \<Rightarrow> (m', view w'))"
  by (cases "pc m"; simp add: view_ops)

definition wired :: "stand \<Rightarrow> bool" where
  "wired s \<longleftrightarrow> \<not> adc_mutex (shared s) \<and> (\<forall>r \<in> set (threads s). connected r) \<and> (\<forall>a \<in> set (todo s). on_valves a)"

fun commands :: "turn list \<Rightarrow> COMMAND set" where
  "commands [] = {}"
| "commands (Receive c # ts) = insert c (commands ts)"
| "commands (_ # ts) = commands ts"

lemma view_reads:
  "filter valve_call cs = [] \<Longrightarrow>
   view (w\<lparr>calls := calls w @ cs, adc_mutex := False, pressureShutoff := b\<rparr>) = (view w)\<lparr>pressureShutoff := b\<rparr>"
  by (simp add: view_def)

lemma monitor_keeps_mutex: "adc_mutex (snd (monitor_step cfg now (m, w))) = adc_mutex w"
  by (cases "pc m"; simp)

lemma action_keeps_mutex: "adc_mutex (do_action a w) = adc_mutex w"
  by (cases a) simp_all

lemma pass_refines:
  assumes "take_turn cfg pf (Pass k) s = Inr s'" and "wired s"
  shows "wired s' \<and> reaches cfg allowed (view_stand s) (view_stand s')"
proof (cases "k < length (threads s)")
  case True
  then obtain r w where pass: "thread_pass pf (threads s ! k) (shared s) = Inr (r, w)"
    and s': "s' = s\<lparr>threads := (threads s)[k := r], shared := w\<rparr>"
    using assms(1) by (auto split: sum.splits)
  obtain cs b where w: "w = (shared s)\<lparr>calls := calls (shared s) @ cs, adc_mutex := False, pressureShutoff := b\<rparr>"
    and cs: "filter valve_call cs = []" and r: "connected r"
    using thread_pass_world [OF pass] assms(2) True by (auto simp: wired_def)
  have "sys_step cfg allowed (view_stand s) (view_stand s')"
    unfolding view_stand_def s' w using view_reads [OF cs] by (auto intro: sys_step.sensor)
  moreover have "wired s'"
    using assms(2) s' w r set_update_subset_insert [of "threads s" k r] by (auto simp: wired_def)
  ultimately show ?thesis by blast
qed (use assms in simp)

lemma turn_refines:
  assumes "take_turn cfg pf t s = Inr s'" and "wired s" and "commands [t] \<subseteq> allowed"
  shows "wired s' \<and> reaches cfg allowed (view_stand s) (view_stand s')"
proof (cases t)
  case (Monitor_turn now)
  obtain m w where step: "monitor_step cfg now (mon s, shared s) = (m, w)" by fastforce
  then have s': "s' = s\<lparr>mon := m, shared := w\<rparr>" using assms(1) Monitor_turn by simp
  have "sys_step cfg allowed (view_stand s) (view_stand s')"
    unfolding view_stand_def s' using view_monitor [of cfg now "mon s" "shared s"] step
    by (auto intro: sys_step.monitor)
  then show ?thesis
    using assms(2) monitor_keeps_mutex [of cfg now "mon s" "shared s"] step s' by (auto simp: wired_def)
next
  case (Receive c)
  show ?thesis
  proof (cases "todo s = []")
    case True
    then have s': "s' = s\<lparr>todo := command_actions c\<rparr>" using assms(1) Receive by simp
    have "sys_step cfg allowed (view_stand s) (view_stand s')"
      unfolding view_stand_def s' using assms(3) Receive True by (auto intro: sys_step.receive)
    then show ?thesis using assms(2) s' command_actions_on_valves by (auto simp: wired_def)
  qed (use assms Receive in simp)
next
  case Act
  show ?thesis
  proof (cases "todo s")
    case (Cons a as)
    then have s': "s' = s\<lparr>todo := as, shared := do_action a (shared s)\<rparr>" using assms(1) Act by simp
    have "view (do_action a (shared s)) = do_action a (view (shared s))"
      using assms(2) Cons by (intro view_action) (simp add: wired_def)
    then have "sys_step cfg allowed (view_stand s) (view_stand s')"
      unfolding view_stand_def s' using Cons by (auto intro: sys_step.act)
    then show ?thesis using assms(2) s' Cons by (auto simp: wired_def action_keeps_mutex)
  qed (use assms Act in simp)
next
  case (Pass k)
  then show ?thesis using pass_refines assms(1,2) by blast
qed

lemma turns_refine:
  "take_turns cfg pf ts s = Inr s' \<Longrightarrow> wired s \<Longrightarrow> commands ts \<subseteq> allowed \<Longrightarrow>
   wired s' \<and> reaches cfg allowed (view_stand s) (view_stand s')"
proof (induction ts arbitrary: s)
  case (Cons t ts)
  obtain s1 where one: "take_turn cfg pf t s = Inr s1" "take_turns cfg pf ts s1 = Inr s'"
    using Cons.prems(1) by (auto split: sum.splits)
  have "commands [t] \<subseteq> allowed" "commands ts \<subseteq> allowed" using Cons.prems(3) by (cases t; auto)+
  then show ?case
    using turn_refines [OF one(1) Cons.prems(2)] Cons.IH [OF one(2)] by (metis rtranclp_trans)
qed simp

text \<open>The program when its threads have been started: \<open>mem\<close> is the packet buffer of a thread.\<close>

definition launch :: "PeriodicThread \<Rightarrow> u8 list \<Rightarrow> sensor_thread" where
  "launch th mem = \<lparr>obj = th, locals = thread_start th mem, at_ring = 0, returned = False\<rparr>"

definition stand_start :: "bool \<Rightarrow> (PeriodicThread \<times> u8 list) list \<Rightarrow> world \<Rightarrow> stand" where
  "stand_start raw ths w =
     (case monitor_start raw w of (m, w') \<Rightarrow>
        \<lparr>mon = m, todo = [], threads = map (\<lambda>(th, mem). launch th mem) ths, shared = w'\<rparr>)"

lemma wired_start:
  assumes "\<forall>(th, mem) \<in> set ths. \<forall>cb \<in> set (buffers th). registered (reader th) (sensor cb)" and "\<not> adc_mutex w"
  shows "wired (stand_start raw ths w)"
  using assms by (fastforce simp: wired_def stand_start_def monitor_start_def connected_def launch_def thread_start_def)

lemma view_start: "view_stand (stand_start raw ths w) = started raw (view w)"
  by (simp add: view_stand_def stand_start_def started_def monitor_start_def view_ops)

lemma constructed_registered:
  assumes "new_PeriodicThread rnd mem freq ss pmax pmin slope yint so = Inr th" and "NUM_SENSORS \<notin> set ss"
  shows "\<forall>cb \<in> set (buffers th). registered (reader th) (sensor cb)"
proof -
  obtain rd where rd: "register_sensors ss new_adc_reader = Inr rd"
    and reg: "\<And>s. s \<in> set ss \<Longrightarrow> registered rd s"
    by (rule register_sensors_all [OF assms(2)]) (rule that)
  show ?thesis
    using assms(1) reg unfolding new_PeriodicThread_def rd by (auto simp: ring_simps)
qed

section \<open>Properties of the whole\<close>

text \<open>C8: whatever turns the monitor, the command thread and the sensor threads take, and as long
  as no sensor thread leaves its memory, the program only does what the interleaving of the
  monitor, the commands and an arbitrary shutoff flag can do: hiding the reads of the ADCs,
  every run is a run of \<open>sys_step\<close> with the commands that were received.\<close>

theorem threads_refine_interleaving:
  assumes "take_turns cfg pf ts (stand_start raw ths w0) = Inr s"
    and "\<forall>(th, mem) \<in> set ths. \<forall>cb \<in> set (buffers th). registered (reader th) (sensor cb)" and "\<not> adc_mutex w0"
  shows "reaches cfg (commands ts) (started raw (view w0)) (view_stand s)"
  using turns_refine [OF assms(1) wired_start [OF assms(2,3)] subset_refl] by (simp add: view_start)

lemma plain_ring_pass:
  assumes "new_PeriodicThread (\<lambda>x. x) (\<lambda>_. replicate 17 blank_item) 500 [PT1, PT2]
     800 300 (- 3 / 10) (11081 / 10) (Some 5) = Inr th" and "\<not> adc_mutex w"
  shows "\<exists>s w'. sample_ring plain_platform th 0 (thread_start th (replicate 260 0), w) = Inr (False, s, w')"
proof -
  note th = constructed_thread [OF assms(1)]
  have "serving plain_platform th [PT1, PT2] (calls w) 0 0 (thread_start th (replicate 260 0), w)"
    by (rule serving_start [OF th(2)]) (simp_all add: assms(2))
  then show ?thesis using serving_ring [OF _ th(1), of plain_platform "calls w" 0 0] by fastforce
qed

theorem threads_refine_interleaving_witness:
  "\<exists>th s. take_turns burn_1s plain_platform [Monitor_turn 0, Pass 0, Receive START_IGNITION, Act]
       (stand_start False [(th, replicate 260 0)] idle_world) = Inr s \<and>
     reaches burn_1s {START_IGNITION} (started False idle_world) (view_stand s)"
proof -
  obtain th where th: "new_PeriodicThread (\<lambda>x. x) (\<lambda>_. replicate 17 blank_item) 500 [PT1, PT2]
       800 300 (- 3 / 10) (11081 / 10) (Some 5) = Inr th" by (rule pair_thread)
  have reg: "\<forall>(th, mem) \<in> set [(th, replicate 260 (0 :: u8))]. \<forall>cb \<in> set (buffers th). registered (reader th) (sensor cb)"
    using constructed_registered [OF th] by simp
  let ?r = "launch th (replicate 260 0)"
  obtain m w where mw: "monitor_step burn_1s 0 (monitor_start False idle_world) = (m, w)" by fastforce
  have mutex: "\<not> adc_mutex w"
    using mw monitor_keeps_mutex [of burn_1s 0 "fst (monitor_start False idle_world)" "snd (monitor_start False idle_world)"]
    by (simp add: monitor_start_def idle_world_def del: monitor_step.simps)
  obtain s' w' where "sample_ring plain_platform th 0 (thread_start th (replicate 260 0), w) = Inr (False, s', w')"
    using plain_ring_pass [OF th mutex] by blast
  then obtain r where pass: "thread_pass plain_platform ?r w = Inr (r, w')"
    using constructed_thread [OF th] by (simp add: thread_pass_def launch_def thread_start_def)
  obtain m0 w0 where start: "monitor_start False idle_world = (m0, w0)" by fastforce
  let ?s0 = "\<lparr>mon = m0, todo = [], threads = [?r], shared = w0\<rparr>"
  have "take_turn burn_1s plain_platform (Monitor_turn 0) ?s0 = Inr (?s0\<lparr>mon := m, shared := w\<rparr>)"
    using mw start by (simp del: monitor_step.simps)
  moreover have "take_turn burn_1s plain_platform (Pass 0) (?s0\<lparr>mon := m, shared := w\<rparr>) =
      Inr (?s0\<lparr>mon := m, shared := w', threads := [r]\<rparr>)"
    using pass by simp
  moreover have "stand_start False [(th, replicate 260 0)] idle_world = ?s0"
    using start by (simp add: stand_start_def)
  ultimately have "\<exists>s. take_turns burn_1s plain_platform [Monitor_turn 0, Pass 0, Receive START_IGNITION, Act]
       (stand_start False [(th, replicate 260 0)] idle_world) = Inr s"
    by (simp del: take_turn.simps(1,4))
  then obtain s where run: "take_turns burn_1s plain_platform [Monitor_turn 0, Pass 0, Receive START_IGNITION, Act]
       (stand_start False [(th, replicate 260 0)] idle_world) = Inr s" by blast
  have plain: "\<not> adc_mutex idle_world" "view idle_world = idle_world" by (simp_all add: idle_world_def view_def)
  have "reaches burn_1s {START_IGNITION} (started False idle_world) (view_stand s)"
    using threads_refine_interleaving [OF run reg plain(1)] unfolding plain(2) by simp
  then show ?thesis using run by blast
qed

text \<open>As long as the operator sends no direct main-valve or igniter command, no interleaving of
  the monitor, the command thread and the sensor threads drives the main valve or the igniter
  high while no burn is in progress, or the main valve before the monitor has opened it:
  reading the sensors does not touch the valves.\<close>

lemma threads_keep_valves_closed:
  assumes "take_turns cfg pf ts (stand_start raw ths w0) = Inr s"
    and "\<forall>(th, mem) \<in> set ths. \<forall>cb \<in> set (buffers th). registered (reader th) (sensor cb)" and "\<not> adc_mutex w0"
    and "commands ts \<subseteq> monitored" and "not_high w0 MAIN_VALVE" and "not_high w0 IGN_START"
  shows "(pc (mon s) \<in> {Entering, Polling, Beginning, Clearing} \<longrightarrow>
       not_high (shared s) MAIN_VALVE \<and> not_high (shared s) IGN_START) \<and>
     (\<not> mainOpen (mon s) \<longrightarrow> not_high (shared s) MAIN_VALVE)"
proof -
  have "reaches cfg (commands ts) (started raw (view w0)) (view_stand s)"
    using turns_refine [OF assms(1) wired_start [OF assms(2,3)] subset_refl] by (simp add: view_start)
  moreover have "closed_inv (started raw (view w0))"
    using assms(5,6) by (intro closed_inv_started) (simp_all add: commanded_valve_calls)
  ultimately have "closed_inv (view_stand s)" using closed_inv_reaches assms(4) by blast
  then show ?thesis
    by (auto simp: closed_inv_def idle_pcs_def view_stand_def commanded_valve_calls)
qed

lemma threads_keep_valves_closed_witness:
  "\<exists>th s. take_turns burn_1s plain_platform [Receive SET_DRIVER2, Act, Act, Pass 0]
       (stand_start True [(th, replicate 260 0)] idle_world) = Inr s \<and>
     not_high (shared s) MAIN_VALVE \<and> not_high (shared s) IGN_START"
proof -
  obtain th where th: "new_PeriodicThread (\<lambda>x. x) (\<lambda>_. replicate 17 blank_item) 500 [PT1, PT2]
       800 300 (- 3 / 10) (11081 / 10) (Some 5) = Inr th" by (rule pair_thread)
  have reg: "\<forall>(th, mem) \<in> set [(th, replicate 260 (0 :: u8))]. \<forall>cb \<in> set (buffers th). registered (reader th) (sensor cb)"
    using constructed_registered [OF th] by simp
  let ?r = "launch th (replicate 260 0)"
  let ?m = "\<lparr>pc = Entering, mainOpen = True, initTime = 0, timeElapsed = 0\<rparr>"
  obtain w where start: "monitor_start True idle_world = (?m, w)" and mutex: "\<not> adc_mutex w"
    by (simp add: monitor_start_def idle_world_def)
  let ?w = "Worker_visitCommand SET_DRIVER2 w"
  have mutex': "\<not> adc_mutex ?w" using mutex by (simp add: visit_defs)
  obtain s' w' where "sample_ring plain_platform th 0 (thread_start th (replicate 260 0), ?w) = Inr (False, s', w')"
    using plain_ring_pass [OF th mutex'] by blast
  then obtain r where pass: "thread_pass plain_platform ?r ?w = Inr (r, w')"
    using constructed_thread [OF th] by (simp add: thread_pass_def launch_def thread_start_def)
  have "stand_start True [(th, replicate 260 0)] idle_world = \<lparr>mon = ?m, todo = [], threads = [?r], shared = w\<rparr>"
    using start by (simp add: stand_start_def)
  moreover have "do_action (Write DRIVER2 HIGH) (do_action (Log_entry INFO ''Writing driver 2 on using pin %d\<newline>'' [Pin DRIVER2]) w) = ?w"
    using command_actions_visit [of SET_DRIVER2 w] by (simp add: command_actions_def drive_actions_def)
  ultimately have run: "take_turns burn_1s plain_platform [Receive SET_DRIVER2, Act, Act, Pass 0]
       (stand_start True [(th, replicate 260 0)] idle_world) =
       Inr \<lparr>mon = ?m, todo = [], threads = [r], shared = w'\<rparr>"
    using pass by (simp add: command_actions_def drive_actions_def)
  have idle: "\<not> adc_mutex idle_world" "commands [Receive SET_DRIVER2, Act, Act, Pass 0] \<subseteq> monitored"
    "not_high idle_world MAIN_VALVE" "not_high idle_world IGN_START"
    by (simp_all add: idle_world_def monitored_def)
  have "not_high w' MAIN_VALVE \<and> not_high w' IGN_START"
    using threads_keep_valves_closed [OF run reg idle] by simp
  then show ?thesis
    by (intro exI [of _ th] exI [of _ "\<lparr>mon = ?m, todo = [], threads = [r], shared = w'\<rparr>"] conjI run) simp_all
qed

end
