(* ===== verification/Resfet_Shutoff.thy ===== *)
theory Resfet_Shutoff
  imports Resfet_System "HOL-Library.Sublist"
begin

text \<open>
  From the pressure sensor to the valves: the sensor threads, the shutoff flag and the monitor
  of Resfet_System during a burn.

  The first part is about a pressure that is already signalled: the average of the readings of
  PT1 stays above the limit, so the flag stays set and the monitor ends the burn
  (\<open>overheating\<close>). The second part starts from any average: every pass of the thread that
  reads PT1 brings the average closer to the readings, until the flag is set (\<open>rising\<close>).
  Both are about readings to come: \<open>h\<close> is the history of the hardware calls up to the moment
  from which the pressure is high.
\<close>

section \<open>A signalled overpressure\<close>

text \<open>A thread on rings with enough memory.\<close>

definition roomy :: "sensor_thread \<Rightarrow> bool" where
  "roomy r \<longleftrightarrow> connected r \<and> length (packet_buf (locals r)) = 260 \<and>
     (\<forall>cb \<in> set (rings (locals r)). ring_safe cb \<and> capacity cb = 16)"

lemma offer_safe:
  assumes "ring_safe cb" and "capacity cb = 16" and "length b = 260"
  shows "\<exists>p cb' b'. offer x cb b = Inr (p, cb', b') \<and> ring_safe cb' \<and> capacity cb' = 16 \<and> length b' = 260"
proof -
  have bound: "length (items cb) \<le> 16" using ring.bound [OF assms(1)] assms(2) by simp
  show ?thesis
  proof (cases "length (items cb) = 16")
    case True
    have "ring_safe (drained 16 cb)" using ring_safe_drained [OF assms(1), of 16] True by simp
    then show ?thesis
      using offer_full [OF assms(1), of b x] assms(2,3) True length_packet [of "items cb" b "sensor cb"] by simp
  next
    case False
    then have "length (items cb) < capacity cb" using bound assms(2) by simp
    then show ?thesis
      using offer_room [OF assms(1), of x b] ring_safe_push [OF assms(1), of "fst x" "snd x"] assms(2,3) by simp
  qed
qed

text \<open>One pass of a thread on enough memory never fails; the average moves with a reading of PT1.\<close>

lemma thread_pass_roomy:
  assumes "roomy r" and "\<not> adc_mutex w" and "\<not> returned r" and "rings (locals r) \<noteq> []"
  defines "sn \<equiv> sensor (rings (locals r) ! at_ring r)"
  shows "\<exists>r' w'. thread_pass pf r w = Inr (r', w') \<and> roomy r' \<and> obj r' = obj r \<and>
     map sensor (rings (locals r')) = map sensor (rings (locals r)) \<and>
     at_ring r' = Suc (at_ring r) mod length (rings (locals r)) \<and>
     (sock (obj r) \<notin> {None, Some (- 1)} \<longrightarrow> \<not> returned r') \<and>
     combAvg (locals r') = next_avg pf (obj r) sn w (combAvg (locals r)) \<and>
     w' = w\<lparr>calls := calls w @ read_calls sn, adc_mutex := False,
           pressureShutoff := next_flag pf (obj r) sn w (combAvg (locals r))\<rparr>"
proof -
  let ?cb = "rings (locals r) ! at_ring r"
  let ?x = "(reading_of pf (obj r) sn w, clock_us pf (calls w @ read_calls sn))"
  have i: "at_ring r < length (rings (locals r))" and reg: "registered (reader (obj r)) sn"
    and safe: "ring_safe ?cb" "capacity ?cb = 16" and buf: "length (packet_buf (locals r)) = 260"
    using assms(1,4) by (auto simp: roomy_def connected_def sn_def)
  obtain p cb' b' where off: "offer ?x ?cb (packet_buf (locals r)) = Inr (p, cb', b')"
    and cb': "ring_safe cb'" "capacity cb' = 16" "length b' = 260"
    using offer_safe [OF safe buf] by blast
  let ?stop = "p \<noteq> None \<and> (sock (obj r) = None \<or> sock (obj r) = Some (- 1))"
  obtain s' w' where run: "sample_ring pf (obj r) (at_ring r) (locals r, w) = Inr (?stop, s', w')"
    and s': "combAvg s' = next_avg pf (obj r) sn w (combAvg (locals r))"
      "rings s' = (rings (locals r))[at_ring r := cb']"
      "packet_buf s' = (if p = None then packet_buf (locals r) else b')"
    using sample_ring_offer [OF reg [unfolded sn_def] assms(2) off [unfolded sn_def]] sn_def by blast
  note world = sample_ring_world [OF run reg [unfolded sn_def] assms(2) i]
  let ?r' = "r\<lparr>locals := s', at_ring := Suc (at_ring r) mod length (rings s'), returned := ?stop\<rparr>"
  have pass: "thread_pass pf r w = Inr (?r', w')" using run assms(3,4) by (simp add: thread_pass_def)
  have con: "connected r" using assms(1) by (simp add: roomy_def)
  have "connected ?r'" using thread_pass_world [OF pass con assms(2)] by blast
  then have "roomy ?r'"
    using assms(1) s' cb' buf set_update_subset_insert [of "rings (locals r)" "at_ring r" cb']
    by (auto simp: roomy_def)
  moreover have "length (rings s') = length (rings (locals r))" using s'(2) by simp
  ultimately show ?thesis using pass world s'(1) by (auto simp: sn_def)
qed

lemma roomy_pass:
  assumes "roomy r" and "\<not> adc_mutex w"
  shows "\<exists>r' cs b. thread_pass pf r w = Inr (r', w\<lparr>calls := calls w @ cs, adc_mutex := False, pressureShutoff := b\<rparr>) \<and>
     filter valve_call cs = [] \<and> roomy r' \<and> map sensor (rings (locals r')) = map sensor (rings (locals r)) \<and>
     obj r' = obj r \<and> (\<not> returned r \<and> sock (obj r) \<notin> {None, Some (- 1)} \<longrightarrow> \<not> returned r') \<and>
     (PT1 \<notin> sensor ` set (rings (locals r)) \<longrightarrow> b = pressureShutoff w)"
proof (cases "returned r \<or> rings (locals r) = []")
  case True
  then show ?thesis using assms
    by (intro exI [of _ r] exI [of _ "[]"] exI [of _ "pressureShutoff w"]) (auto simp: thread_pass_def)
next
  case False
  let ?sn = "sensor (rings (locals r) ! at_ring r)"
  have i: "at_ring r < length (rings (locals r))" and reg: "registered (reader (obj r)) ?sn"
    using assms(1) False by (auto simp: roomy_def connected_def)
  have "?sn \<noteq> PT1" if "PT1 \<notin> sensor ` set (rings (locals r))" using i that by (metis image_eqI nth_mem)
  moreover have "filter valve_call (read_calls ?sn) = []"
    using reg by (intro read_calls_no_valve) (simp add: registered_def)
  moreover obtain r' w' where "thread_pass pf r w = Inr (r', w')" "roomy r'" "obj r' = obj r"
    "sock (obj r) \<notin> {None, Some (- 1)} \<longrightarrow> \<not> returned r'" "map sensor (rings (locals r')) = map sensor (rings (locals r))"
    "w' = w\<lparr>calls := calls w @ read_calls ?sn, adc_mutex := False,
       pressureShutoff := next_flag pf (obj r) ?sn w (combAvg (locals r))\<rparr>"
    using thread_pass_roomy [OF assms, of pf] False by blast
  ultimately show ?thesis
    by (intro exI [of _ r'] exI [of _ "read_calls ?sn"] exI [of _ "next_flag pf (obj r) ?sn w (combAvg (locals r))"])
      (auto simp: next_flag_def)
qed

lemma launch_roomy:
  assumes "new_PeriodicThread rnd mem freq ss pmax pmin slope yint so = Inr th" and "NUM_SENSORS \<notin> set ss"
    and "\<forall>s \<in> set ss. 17 \<le> length (mem s)" and "length b = 260"
  shows "roomy (launch th b)"
proof -
  obtain rd where rd: "register_sensors ss new_adc_reader = Inr rd"
    by (rule register_sensors_all [OF assms(2)]) (rule that)
  have buf: "buffers th = map (\<lambda>s. new_circular_buffer s 16 (mem s)) ss"
    using assms(1) unfolding new_PeriodicThread_def rd by auto
  have "ring_safe (new_circular_buffer s 16 (mem s))" if "s \<in> set ss" for s
    using ring_safe_new [of 16 "mem s" s] assms(3) that by fastforce
  then show ?thesis
    using constructed_registered [OF assms(1,2)] buf assms(4)
    by (auto simp: roomy_def connected_def launch_def thread_start_def ring_simps)
qed

text \<open>Threads that keep running on the rings they were started with.\<close>

definition steady :: "sensor_thread list \<Rightarrow> stand \<Rightarrow> bool" where
  "steady rs s \<longleftrightarrow> \<not> adc_mutex (shared s) \<and> length (threads s) = length rs \<and>
     (\<forall>k < length rs. roomy (threads s ! k) \<and> \<not> returned (threads s ! k) \<and> obj (threads s ! k) = obj (rs ! k) \<and>
        map sensor (rings (locals (threads s ! k))) = map sensor (rings (locals (rs ! k))))"

lemma steady_turn:
  assumes "steady rs s" and "\<forall>r \<in> set rs. sock (obj r) \<notin> {None, Some (- 1)}"
  shows "\<exists>s'. take_turn cfg pf t s = Inr s' \<and> steady rs s'"
proof (cases t)
  case (Monitor_turn now)
  obtain m w where "monitor_step cfg now (mon s, shared s) = (m, w)" by fastforce
  then show ?thesis
    using assms(1) Monitor_turn monitor_keeps_mutex [of cfg now "mon s" "shared s"]
    by (simp add: steady_def del: monitor_step.simps)
next
  case (Receive c)
  then show ?thesis using assms(1) by (simp add: steady_def)
next
  case Act
  then show ?thesis using assms(1) by (cases "todo s") (simp_all add: steady_def action_keeps_mutex)
next
  case (Pass k)
  show ?thesis
  proof (cases "k < length (threads s)")
    case True
    have r: "roomy (threads s ! k)" and w: "\<not> adc_mutex (shared s)" and k: "k < length rs"
      using assms(1) True by (simp_all add: steady_def)
    have "sock (obj (threads s ! k)) \<notin> {None, Some (- 1)}" using assms k by (simp add: steady_def)
    moreover obtain r' cs b where "thread_pass pf (threads s ! k) (shared s) =
        Inr (r', (shared s)\<lparr>calls := calls (shared s) @ cs, adc_mutex := False, pressureShutoff := b\<rparr>)"
      and "roomy r'" "map sensor (rings (locals r')) = map sensor (rings (locals (threads s ! k)))"
        "obj r' = obj (threads s ! k)"
        "\<not> returned (threads s ! k) \<and> sock (obj (threads s ! k)) \<notin> {None, Some (- 1)} \<longrightarrow> \<not> returned r'"
      using roomy_pass [OF r w, of pf] by blast
    ultimately show ?thesis
      using assms(1) True k Pass by (simp add: steady_def nth_list_update)
  qed (use assms(1) Pass in simp)
qed

lemma steady_turns:
  assumes "steady rs s" and "\<forall>r \<in> set rs. sock (obj r) \<notin> {None, Some (- 1)}"
  shows "\<exists>s'. take_turns cfg pf ts s = Inr s' \<and> steady rs s'"
  using assms(1)
proof (induction ts arbitrary: s)
  case (Cons t ts)
  obtain s1 where "take_turn cfg pf t s = Inr s1" "steady rs s1" using steady_turn [OF Cons.prems assms(2)] by blast
  then show ?case using Cons.IH by simp
qed simp

text \<open>The pressure is above the limit and stays there: for a thread that reads PT1, its average and
  every reading to come.\<close>

definition overpressure :: "platform \<Rightarrow> hw_call list \<Rightarrow> sensor_thread \<Rightarrow> bool" where
  "overpressure pf h r \<longleftrightarrow> (PT1 \<in> sensor ` set (rings (locals r)) \<longrightarrow>
     pressureMax (obj r) < combAvg (locals r) \<and>
     (\<forall>cs. pressureMax (obj r) < calibrated (obj r) (fst (sampled pf PT1 (h @ cs)))))"

lemma overpressure_without: "PT1 \<notin> sensor ` set (rings (locals r)) \<Longrightarrow> overpressure pf h r"
  by (simp add: overpressure_def)

lemma pass_average:
  assumes "roomy r" and "\<not> adc_mutex w" and "rings (locals r) \<noteq> []" and "rounding pf = (\<lambda>x. x)"
    and "sensor (rings (locals r) ! at_ring r) = PT1"
  shows "next_avg pf (obj r) PT1 w (combAvg (locals r)) =
     combAvg (locals r) * (95 / 100) + calibrated (obj r) (fst (sampled pf PT1 (calls w))) * (5 / 100)"
proof -
  have "registered (reader (obj r)) PT1" using assms(1,3,5) unfolding roomy_def connected_def by (metis nth_mem)
  then show ?thesis
    using reading_of_sampled [OF _ assms(2), of "obj r" PT1 pf]
    by (simp add: next_avg_def assms(4) comb_update_exact calibrated_def)
qed

lemma overpressure_pass:
  assumes "roomy r" and "\<not> adc_mutex w" and "overpressure pf h r" and "pressureShutoff w" and "rounding pf = (\<lambda>x. x)"
    and "prefix h (calls w)"
  shows "\<exists>r' w' cs. thread_pass pf r w = Inr (r', w') \<and> roomy r' \<and> overpressure pf h r' \<and>
     w' = w\<lparr>calls := calls w @ cs, adc_mutex := False\<rparr> \<and> filter valve_call cs = []"
proof (cases "returned r \<or> rings (locals r) = []")
  case True
  then show ?thesis
    using assms(1-3) by (intro exI [of _ r] exI [of _ w] exI [of _ "[]"]) (auto simp: thread_pass_def)
next
  case False
  let ?sn = "sensor (rings (locals r) ! at_ring r)"
  obtain r' w' where pass: "thread_pass pf r w = Inr (r', w')" and r': "roomy r'" "obj r' = obj r"
    "map sensor (rings (locals r')) = map sensor (rings (locals r))"
    "combAvg (locals r') = next_avg pf (obj r) ?sn w (combAvg (locals r))"
    and w': "w' = w\<lparr>calls := calls w @ read_calls ?sn, adc_mutex := False,
           pressureShutoff := next_flag pf (obj r) ?sn w (combAvg (locals r))\<rparr>"
    using thread_pass_roomy [OF assms(1,2), of pf] False by blast
  have i: "at_ring r < length (rings (locals r))" and reg: "registered (reader (obj r)) ?sn"
    using assms(1) False by (auto simp: roomy_def connected_def)
  have same: "sensor ` set (rings (locals r')) = sensor ` set (rings (locals r))"
    using r'(3) by (metis set_map)
  have up: "pressureMax (obj r) < next_avg pf (obj r) ?sn w (combAvg (locals r))" if "PT1 \<in> sensor ` set (rings (locals r))"
  proof (cases "?sn = PT1")
    case True
    have "pressureMax (obj r) < calibrated (obj r) (fst (sampled pf PT1 (calls w)))" "pressureMax (obj r) < combAvg (locals r)"
      using assms(3,6) that by (auto simp: overpressure_def prefix_def)
    then show ?thesis using pass_average [OF assms(1,2) _ assms(5) True] False True by simp
  qed (use assms(3) that in \<open>simp add: overpressure_def next_avg_def\<close>)
  have flag: "next_flag pf (obj r) ?sn w (combAvg (locals r))"
  proof (cases "?sn = PT1")
    case True
    then have "PT1 \<in> sensor ` set (rings (locals r))" using i by (metis image_eqI nth_mem)
    then show ?thesis using up True by (simp add: next_flag_def out_of_range_def)
  qed (use assms(4) in \<open>simp add: next_flag_def\<close>)
  have "overpressure pf h r'" using up r'(2,4) same assms(3) by (simp add: overpressure_def)
  moreover have "filter valve_call (read_calls ?sn) = []"
    using reg by (intro read_calls_no_valve) (simp add: registered_def)
  moreover have "w' = w\<lparr>calls := calls w @ read_calls ?sn, adc_mutex := False\<rparr>"
    using w' flag assms(4) by simp
  ultimately show ?thesis using pass r' by blast
qed

fun sets_no_shutoff :: "action \<Rightarrow> bool" where
  "sets_no_shutoff (Set_shutoff b) = False"
| "sets_no_shutoff a = (harmless a \<and> on_valves a)"

text \<open>The monitor turns until a burn is over.\<close>

definition turns_to_end :: "burn_config \<Rightarrow> monitor \<Rightarrow> nat" where
  "turns_to_end cfg m =
     (case pc m of
        Closing_main \<Rightarrow> 3 | Closing_igniter \<Rightarrow> 2 | Clearing \<Rightarrow> 1 | Entering \<Rightarrow> 0
      | _ \<Rightarrow> 3 + steps_to_shutoff cfg m)"

definition low :: "world \<Rightarrow> RPiGPIOPin \<Rightarrow> bool" where
  "low w p \<longleftrightarrow> commanded (calls w) p = Some LOW"

definition burning :: "monitor \<Rightarrow> world \<Rightarrow> bool" where
  "burning m w \<longleftrightarrow> pc m \<in> burn_pcs \<union> {Closing_main, Closing_igniter, Clearing, Entering} \<and>
     (pc m \<in> {Closing_igniter, Clearing, Entering} \<longrightarrow> low w MAIN_VALVE) \<and>
     (pc m \<in> {Clearing, Entering} \<longrightarrow> low w IGN_START)"

lemma monitor_calls: "monitor_step cfg now (m, w) = (m', w') \<Longrightarrow> prefix (calls w) (calls w')"
  by (cases "pc m") (auto simp: prefix_def logger_log_def split: if_splits)

lemma action_calls: "prefix (calls w) (calls (do_action a w))"
  by (cases a) (auto simp: prefix_def logger_log_def)

text \<open>Every step of the monitor keeps this until it is back at the top of its loop; past the delay a
  signalled shutoff brings it closer.\<close>

lemma burning_keeps:
  assumes "burning m w" and "pc m \<noteq> Entering" and "monitor_step cfg now (m, w) = (m', w')"
  shows "burning m' w' \<and> initTime m' = initTime m \<and> pressureShutoff w' = pressureShutoff w \<and>
     adc_mutex w' = adc_mutex w \<and> (pc m' = Entering \<longrightarrow> \<not> mainOpen m' \<and> \<not> ignitionOn w')"
  using assms
  by (cases "pc m") (auto simp: burning_def burn_pcs_def low_def
      commanded_append commanded_Cons map_add_def Let_def split: if_splits)

lemma burning_closer:
  assumes "burning m w" and "pc m \<noteq> Entering" and "shutoffEnabled cfg" and "pressureShutoff w"
    and "pressureShutoffDelay cfg < now - initTime m" and "monitor_step cfg now (m, w) = (m', w')"
  shows "turns_to_end cfg m' < turns_to_end cfg m"
  using assms
  by (cases "pc m") (auto simp: burning_def burn_pcs_def turns_to_end_def steps_to_shutoff_def split: if_splits)

lemma no_shutoff_action:
  assumes "sets_no_shutoff a"
  shows "pressureShutoff (do_action a w) = pressureShutoff w" and "burning m w \<Longrightarrow> burning m (do_action a w)"
proof -
  show "pressureShutoff (do_action a w) = pressureShutoff w" using assms by (cases a) simp_all
  have "low (do_action a w) p" if "low w p" "p \<in> {MAIN_VALVE, IGN_START}" for p
    using assms that by (cases a) (auto simp: low_def)
  then show "burning m w \<Longrightarrow> burning m (do_action a w)" by (auto simp: burning_def)
qed

lemma no_shutoff_commands: "c \<in> monitored - {START_IGNITION} \<Longrightarrow> a \<in> set (command_actions c) \<Longrightarrow> sets_no_shutoff a"
  by (cases c) (auto simp: command_actions_def drive_actions_def monitored_def pin_defs SENSOR_PINS_def)

text \<open>The turns of the scenario: the clock of the monitor is past the delay after the start \<open>t0\<close> of
  the burn, and no command fires, opens the main valve or clears the shutoff.\<close>

fun calm :: "burn_config \<Rightarrow> u64 \<Rightarrow> turn \<Rightarrow> bool" where
  "calm cfg t0 (Monitor_turn now) = (pressureShutoffDelay cfg < now - t0)"
| "calm cfg t0 (Receive c) = (c \<in> monitored - {START_IGNITION})"
| "calm cfg t0 _ = True"

fun monitor_turns :: "turn list \<Rightarrow> nat" where
  "monitor_turns [] = 0"
| "monitor_turns (Monitor_turn now # ts) = Suc (monitor_turns ts)"
| "monitor_turns (_ # ts) = monitor_turns ts"

fun mild :: "turn \<Rightarrow> bool" where
  "mild (Receive c) = (c \<in> monitored - {START_IGNITION})"
| "mild _ = True"

lemma calm_mild: "calm cfg t0 t \<Longrightarrow> mild t"
  by (cases t) simp_all

text \<open>The burn started at \<open>t0\<close> is in progress or just over.\<close>

definition in_burn :: "hw_call list \<Rightarrow> u64 \<Rightarrow> stand \<Rightarrow> bool" where
  "in_burn h t0 s \<longleftrightarrow> \<not> adc_mutex (shared s) \<and> prefix h (calls (shared s)) \<and>
     (\<forall>a \<in> set (todo s). sets_no_shutoff a) \<and> burning (mon s) (shared s) \<and> initTime (mon s) = t0 \<and>
     (pc (mon s) = Entering \<longrightarrow> \<not> mainOpen (mon s) \<and> \<not> ignitionOn (shared s))"

lemma in_burn_turn:
  assumes "in_burn h t0 s" and "mild t" and "\<forall>k. t \<noteq> Pass k" and "pc (mon s) \<noteq> Entering"
  shows "\<exists>s'. take_turn cfg pf t s = Inr s' \<and> in_burn h t0 s' \<and> threads s' = threads s \<and>
     pressureShutoff (shared s') = pressureShutoff (shared s)"
proof (cases t)
  case (Monitor_turn now)
  obtain m w where step: "monitor_step cfg now (mon s, shared s) = (m, w)" by fastforce
  have "burning (mon s) (shared s)" using assms(1) by (simp add: in_burn_def)
  from burning_keeps [OF this assms(4) step] monitor_calls [OF step] show ?thesis
    using assms(1) step Monitor_turn
    by (auto simp: in_burn_def simp del: monitor_step.simps intro: prefix_order.trans)
next
  case (Receive c)
  then show ?thesis using assms(1,2) no_shutoff_commands [of c] by (auto simp: in_burn_def)
next
  case Act
  show ?thesis
  proof (cases "todo s")
    case Nil
    then show ?thesis using assms(1) Act by simp
  next
    case (Cons a as)
    then have "sets_no_shutoff a" using assms(1) by (simp add: in_burn_def)
    then show ?thesis
      using assms(1,4) Act Cons no_shutoff_action [where a = a and w = "shared s"] action_calls [of "shared s" a]
      by (auto simp: in_burn_def action_keeps_mutex intro: prefix_order.trans)
  qed
qed (use assms(3) in simp)

lemma in_burn_pass:
  assumes "in_burn h t0 s" and "filter valve_call cs = []"
  shows "in_burn h t0 (s\<lparr>threads := rs,
     shared := (shared s)\<lparr>calls := calls (shared s) @ cs, adc_mutex := False, pressureShutoff := b\<rparr>\<rparr>)"
proof -
  have "commanded (calls (shared s) @ cs) p = commanded (calls (shared s)) p" if "p \<notin> set SENSOR_PINS" for p
    using commanded_valve_calls [OF that, of "calls (shared s) @ cs"] commanded_valve_calls [OF that, of "calls (shared s)"]
      assms(2) by simp
  then show ?thesis using assms(1) by (auto simp: in_burn_def burning_def low_def)
qed

text \<open>A burn with the shutoff signalled and the pressure above the limit.\<close>

definition overheating :: "platform \<Rightarrow> hw_call list \<Rightarrow> u64 \<Rightarrow> stand \<Rightarrow> bool" where
  "overheating pf h t0 s \<longleftrightarrow> in_burn h t0 s \<and> pressureShutoff (shared s) \<and>
     (\<forall>r \<in> set (threads s). roomy r \<and> overpressure pf h r)"

lemma overheating_pass:
  assumes "overheating pf h t0 s" and "rounding pf = (\<lambda>x. x)"
  shows "\<exists>s'. take_turn cfg pf (Pass k) s = Inr s' \<and> overheating pf h t0 s' \<and> mon s' = mon s"
proof (cases "k < length (threads s)")
  case True
  let ?r = "threads s ! k"
  have r: "roomy ?r" "overpressure pf h ?r" and burn: "in_burn h t0 s" and on: "pressureShutoff (shared s)"
    and w: "\<not> adc_mutex (shared s)" "prefix h (calls (shared s))"
    using assms(1) True by (simp_all add: overheating_def in_burn_def)
  obtain r' cs where pass: "thread_pass pf ?r (shared s) = Inr (r', (shared s)\<lparr>calls := calls (shared s) @ cs, adc_mutex := False\<rparr>)"
    and r': "roomy r'" "overpressure pf h r'" and cs: "filter valve_call cs = []"
    using overpressure_pass [OF r(1) w(1) r(2) on assms(2) w(2)] by blast
  have "(shared s)\<lparr>calls := calls (shared s) @ cs, adc_mutex := False, pressureShutoff := True\<rparr> =
      (shared s)\<lparr>calls := calls (shared s) @ cs, adc_mutex := False\<rparr>"
    using on by simp
  then have "in_burn h t0 (s\<lparr>threads := (threads s)[k := r'],
      shared := (shared s)\<lparr>calls := calls (shared s) @ cs, adc_mutex := False\<rparr>\<rparr>)"
    using in_burn_pass [OF burn cs, where rs = "(threads s)[k := r']" and b = True] by simp
  then show ?thesis
    using assms(1) True pass r' set_update_subset_insert [of "threads s" k r']
    by (auto simp: overheating_def)
qed (use assms in simp)

lemma overheating_keeps:
  assumes "overheating pf h t0 s" and "mild t" and "pc (mon s) \<noteq> Entering" and "rounding pf = (\<lambda>x. x)"
  shows "\<exists>s'. take_turn cfg pf t s = Inr s' \<and> overheating pf h t0 s'"
proof (cases "\<exists>k. t = Pass k")
  case True
  then show ?thesis using overheating_pass [OF assms(1,4)] by blast
next
  case False
  have "in_burn h t0 s" using assms(1) by (simp add: overheating_def)
  from in_burn_turn [OF this assms(2) _ assms(3), of cfg pf] False assms(1)
  show ?thesis by (auto simp: overheating_def)
qed

lemma overheating_closer:
  assumes "overheating pf h t0 s" and "calm cfg t0 t" and "pc (mon s) \<noteq> Entering" and "shutoffEnabled cfg"
    and "take_turn cfg pf t s = Inr s'" and "rounding pf = (\<lambda>x. x)"
  shows "turns_to_end cfg (mon s') + monitor_turns [t] \<le> turns_to_end cfg (mon s)"
proof (cases t)
  case (Monitor_turn now)
  obtain m w where step: "monitor_step cfg now (mon s, shared s) = (m, w)" by fastforce
  have burn: "burning (mon s) (shared s)" and on: "pressureShutoff (shared s)"
    and now: "pressureShutoffDelay cfg < now - initTime (mon s)"
    using assms(1,2) Monitor_turn by (simp_all add: overheating_def in_burn_def)
  show ?thesis
    using burning_closer [OF burn assms(3,4) on now step] assms(5) step Monitor_turn
    by (auto simp del: monitor_step.simps)
next
  case (Pass k)
  then show ?thesis using overheating_pass [OF assms(1,6), of cfg k] assms(5) by auto
qed (use assms(5) in \<open>auto split: list.splits if_splits\<close>)

lemma overheating_turns:
  assumes "overheating pf h t0 s" and "\<forall>t \<in> set ts. calm cfg t0 t" and "shutoffEnabled cfg" and "rounding pf = (\<lambda>x. x)"
    and "turns_to_end cfg (mon s) \<le> monitor_turns ts"
  shows "\<exists>k \<le> length ts. \<exists>s'. take_turns cfg pf (take k ts) s = Inr s' \<and> in_burn h t0 s' \<and> pc (mon s') = Entering"
  using assms(1,2,5)
proof (induction ts arbitrary: s)
  case Nil
  then have "pc (mon s) = Entering"
    by (cases "pc (mon s)") (auto simp: turns_to_end_def overheating_def in_burn_def burning_def burn_pcs_def)
  then show ?case using Nil by (intro exI [of _ 0]) (simp add: overheating_def)
next
  case (Cons t ts)
  show ?case
  proof (cases "pc (mon s) = Entering")
    case True
    then show ?thesis using Cons.prems(1) by (intro exI [of _ 0]) (simp add: overheating_def)
  next
    case False
    have calm: "calm cfg t0 t" using Cons.prems(2) by simp
    obtain s1 where s1: "take_turn cfg pf t s = Inr s1" "overheating pf h t0 s1"
      using overheating_keeps [OF Cons.prems(1) calm_mild [OF calm] False assms(4)] by blast
    have "turns_to_end cfg (mon s1) + monitor_turns [t] \<le> turns_to_end cfg (mon s)"
      by (rule overheating_closer [OF Cons.prems(1) calm False assms(3) s1(1) assms(4)])
    moreover have "monitor_turns (t # ts) = monitor_turns [t] + monitor_turns ts" by (cases t) simp_all
    ultimately have "turns_to_end cfg (mon s1) \<le> monitor_turns ts" using Cons.prems(3) by linarith
    then obtain k s' where "k \<le> length ts" "take_turns cfg pf (take k ts) s1 = Inr s'" "in_burn h t0 s'"
      "pc (mon s') = Entering"
      using Cons.IH [OF s1(2)] Cons.prems(2) by auto
    then show ?thesis using s1(1) by (intro exI [of _ "Suc k"]) auto
  qed
qed

lemma in_burn_over:
  "in_burn h t0 s \<Longrightarrow> pc (mon s) = Entering \<Longrightarrow> \<not> mainOpen (mon s) \<and> \<not> ignitionOn (shared s) \<and>
     commanded (calls (shared s)) MAIN_VALVE = Some LOW \<and> commanded (calls (shared s)) IGN_START = Some LOW"
  by (simp add: in_burn_def burning_def low_def)

text \<open>A pressure that stays above its limit ends a burn, whatever else happens: with the shutoff
  enabled and signalled, exact arithmetic, rings with enough memory and the average and all
  coming readings of PT1 above the limit, and from the delay after the start of the burn on,
  every interleaving of the sensor threads, the monitor and commands other than the direct
  ones and START_IGNITION in which the monitor takes eleven turns brings the monitor back to
  the top of its loop with both pins low and the ignition flag off: the sensor threads never
  take the signal back meanwhile.\<close>

lemma overpressure_ends_burn:
  assumes "pc (mon s) \<in> {Testing, Opening, Checking, Stopping, Sleeping}" and "shutoffEnabled cfg"
    and "pressureShutoff (shared s)" and "\<not> adc_mutex (shared s)" and "\<forall>a \<in> set (todo s). sets_no_shutoff a"
    and "\<forall>r \<in> set (threads s). roomy r \<and> overpressure pf (calls (shared s)) r" and "rounding pf = (\<lambda>x. x)"
    and "\<forall>t \<in> set ts. calm cfg (initTime (mon s)) t" and "11 \<le> monitor_turns ts"
  shows "\<exists>k \<le> length ts. \<exists>s'. take_turns cfg pf (take k ts) s = Inr s' \<and>
     pc (mon s') = Entering \<and> \<not> mainOpen (mon s') \<and> \<not> ignitionOn (shared s') \<and>
     commanded (calls (shared s')) MAIN_VALVE = Some LOW \<and> commanded (calls (shared s')) IGN_START = Some LOW"
proof -
  have "overheating pf (calls (shared s)) (initTime (mon s)) s"
    using assms(1,3-6) by (auto simp: overheating_def in_burn_def burning_def burn_pcs_def)
  moreover have "turns_to_end cfg (mon s) \<le> monitor_turns ts"
    using assms(1,9) by (auto simp: turns_to_end_def steps_to_shutoff_def)
  ultimately show ?thesis
    using overheating_turns [OF _ assms(8,2,7)] in_burn_over by blast
qed

section \<open>From the first high reading\<close>

text \<open>A thread that keeps sampling, that has PT1 once among its sensors, and that will only read
  pressures of at least \<open>c\<close>, above its limit.\<close>

definition hot_reader :: "platform \<Rightarrow> hw_call list \<Rightarrow> real \<Rightarrow> sensor_thread \<Rightarrow> bool" where
  "hot_reader pf h c r \<longleftrightarrow> roomy r \<and> \<not> returned r \<and> sock (obj r) \<notin> {None, Some (- 1)} \<and>
     distinct (map sensor (rings (locals r))) \<and> pressureMax (obj r) < c \<and>
     (\<forall>cs. c \<le> calibrated (obj r) (fst (sampled pf PT1 (h @ cs))))"

definition pt1_at :: "sensor_thread \<Rightarrow> nat \<Rightarrow> bool" where
  "pt1_at r i \<longleftrightarrow> i < length (rings (locals r)) \<and> sensor (rings (locals r) ! i) = PT1"

lemma pt1_at_cong: "map sensor (rings (locals r')) = map sensor (rings (locals r)) \<Longrightarrow> pt1_at r' i \<longleftrightarrow> pt1_at r i"
  unfolding pt1_at_def by (metis length_map nth_map)

lemma hot_pass:
  assumes "hot_reader pf h c r" and "pt1_at r i" and "\<not> adc_mutex w" and "prefix h (calls w)" and "rounding pf = (\<lambda>x. x)"
  shows "\<exists>r' cs b. thread_pass pf r w = Inr (r', w\<lparr>calls := calls w @ cs, adc_mutex := False, pressureShutoff := b\<rparr>) \<and>
     filter valve_call cs = [] \<and> hot_reader pf h c r' \<and> obj r' = obj r \<and> pt1_at r' i \<and>
     length (rings (locals r')) = length (rings (locals r)) \<and>
     at_ring r' = Suc (at_ring r) mod length (rings (locals r)) \<and>
     (if at_ring r = i
      then c - combAvg (locals r') \<le> 95 / 100 * (c - combAvg (locals r)) \<and> b = out_of_range (obj r) (combAvg (locals r'))
      else combAvg (locals r') = combAvg (locals r))"
proof -
  let ?sn = "sensor (rings (locals r) ! at_ring r)"
  let ?b = "next_flag pf (obj r) ?sn w (combAvg (locals r))"
  have roomy: "roomy r" and on: "\<not> returned r" and full: "rings (locals r) \<noteq> []"
    using assms(1,2) by (auto simp: hot_reader_def pt1_at_def)
  have at: "at_ring r < length (rings (locals r))" and reg: "registered (reader (obj r)) ?sn"
    using roomy full by (auto simp: roomy_def connected_def)
  obtain r' where pass: "thread_pass pf r w = Inr (r', w\<lparr>calls := calls w @ read_calls ?sn, adc_mutex := False, pressureShutoff := ?b\<rparr>)"
    and r': "roomy r'" "obj r' = obj r" "map sensor (rings (locals r')) = map sensor (rings (locals r))"
      "at_ring r' = Suc (at_ring r) mod length (rings (locals r))" "sock (obj r) \<notin> {None, Some (- 1)} \<longrightarrow> \<not> returned r'"
      "combAvg (locals r') = next_avg pf (obj r) ?sn w (combAvg (locals r))"
    using thread_pass_roomy [OF roomy assms(3) on full, of pf] by blast
  have len: "length (rings (locals r')) = length (rings (locals r))" using r'(3) by (metis length_map)
  have "hot_reader pf h c r'" using assms(1) r'(1,2,3,5) by (simp add: hot_reader_def)
  moreover have "filter valve_call (read_calls ?sn) = []"
    using reg by (intro read_calls_no_valve) (simp add: registered_def)
  moreover have "?sn = PT1 \<longleftrightarrow> at_ring r = i"
    using nth_eq_iff_index_eq [of "map sensor (rings (locals r))" "at_ring r" i] assms(1,2) at
    by (auto simp: hot_reader_def pt1_at_def)
  moreover have "c \<le> calibrated (obj r) (fst (sampled pf PT1 (calls w)))"
    using assms(1,4) by (auto simp: hot_reader_def prefix_def)
  ultimately show ?thesis
    using pass r'(2,4,6) len pt1_at_cong [OF r'(3)] assms(2) pass_average [OF roomy assms(3) full assms(5)]
    by (intro exI [of _ r'] exI [of _ "read_calls ?sn"] exI [of _ ?b]) (auto simp: next_flag_def next_avg_def)
qed

text \<open>The passes of a thread until its iterator is at the ring \<open>i\<close> of \<open>n\<close> rings.\<close>

definition ahead :: "nat \<Rightarrow> nat \<Rightarrow> nat \<Rightarrow> nat" where
  "ahead n a i = (if a \<le> i then i - a else i + n - a)"

lemma ahead_Suc:
  "a < n \<Longrightarrow> i < n \<Longrightarrow> ahead n (Suc a mod n) i = (if a = i then n - 1 else ahead n a i - 1)"
  by (cases "Suc a = n") (auto simp: ahead_def)

text \<open>\<open>p\<close> passes of the thread bring its average above the limit.\<close>

definition passes_left :: "real \<Rightarrow> sensor_thread \<Rightarrow> nat \<Rightarrow> bool" where
  "passes_left c r p \<longleftrightarrow> (\<exists>i n. pt1_at r i \<and>
     (95 / 100) ^ Suc n * (c - combAvg (locals r)) < c - pressureMax (obj r) \<and>
     p = Suc (ahead (length (rings (locals r))) (at_ring r) i + length (rings (locals r)) * n))"

lemma passes_left_bound:
  assumes "roomy r" and "PT1 \<in> set (map sensor (rings (locals r)))"
    and "(95 / 100) ^ Suc n * (c - combAvg (locals r)) < c - pressureMax (obj r)"
  shows "\<exists>p \<le> length (rings (locals r)) * Suc n. passes_left c r p"
proof -
  obtain i where i: "pt1_at r i" using assms(2) unfolding pt1_at_def in_set_conv_nth by (metis length_map nth_map)
  then have "at_ring r < length (rings (locals r))" "i < length (rings (locals r))"
    using assms(1) by (auto simp: roomy_def connected_def pt1_at_def)
  then have "ahead (length (rings (locals r))) (at_ring r) i < length (rings (locals r))" by (auto simp: ahead_def)
  then have "Suc (ahead (length (rings (locals r))) (at_ring r) i + length (rings (locals r)) * n)
      \<le> length (rings (locals r)) * Suc n" by simp
  then show ?thesis using i assms(3) unfolding passes_left_def by blast
qed

lemma passes_left_pass:
  assumes "hot_reader pf h c r" and "passes_left c r p" and "\<not> adc_mutex w" and "prefix h (calls w)" and "rounding pf = (\<lambda>x. x)"
  shows "\<exists>r' cs b. thread_pass pf r w = Inr (r', w\<lparr>calls := calls w @ cs, adc_mutex := False, pressureShutoff := b\<rparr>) \<and>
     filter valve_call cs = [] \<and> hot_reader pf h c r' \<and>
     (if p = 1 then pressureMax (obj r') < combAvg (locals r') \<and> b else passes_left c r' (p - 1))"
proof -
  let ?L = "length (rings (locals r))" and ?q = "95 / 100 :: real"
  obtain i n where i: "pt1_at r i" and fade: "?q ^ Suc n * (c - combAvg (locals r)) < c - pressureMax (obj r)"
    and p: "p = Suc (ahead ?L (at_ring r) i + ?L * n)"
    using assms(2) by (auto simp: passes_left_def)
  obtain r' cs b where pass: "thread_pass pf r w = Inr (r', w\<lparr>calls := calls w @ cs, adc_mutex := False, pressureShutoff := b\<rparr>)"
    and r': "filter valve_call cs = []" "hot_reader pf h c r'" "obj r' = obj r" "pt1_at r' i"
      "length (rings (locals r')) = ?L" "at_ring r' = Suc (at_ring r) mod ?L"
    and avg: "if at_ring r = i then c - combAvg (locals r') \<le> ?q * (c - combAvg (locals r)) \<and>
        b = out_of_range (obj r) (combAvg (locals r')) else combAvg (locals r') = combAvg (locals r)"
    using hot_pass [OF assms(1) i assms(3,4,5)] by blast
  have "i < ?L" using i by (simp add: pt1_at_def)
  moreover have "at_ring r < ?L" using assms(1) i by (auto simp: hot_reader_def roomy_def connected_def pt1_at_def)
  ultimately have at: "ahead ?L (at_ring r') i = (if at_ring r = i then ?L - 1 else ahead ?L (at_ring r) i - 1)"
    and ahead: "ahead ?L (at_ring r) i = 0 \<longleftrightarrow> at_ring r = i" and L: "0 < ?L"
    using ahead_Suc by (auto simp: r'(6) ahead_def)
  have "if p = 1 then pressureMax (obj r') < combAvg (locals r') \<and> b else passes_left c r' (p - 1)"
  proof (cases "at_ring r = i")
    case False
    then have "p - 1 = Suc (ahead ?L (at_ring r') i + ?L * n)" "p \<noteq> 1" using at ahead p by auto
    then show ?thesis using False avg fade r' by (auto simp: passes_left_def)
  next
    case True
    have "?q ^ n * (c - combAvg (locals r')) \<le> ?q ^ n * (?q * (c - combAvg (locals r)))"
      using avg True by (intro mult_left_mono) simp_all
    also have "\<dots> = ?q ^ Suc n * (c - combAvg (locals r))" by simp
    finally have closer: "?q ^ n * (c - combAvg (locals r')) < c - pressureMax (obj r)" using fade by linarith
    show ?thesis
    proof (cases n)
      case 0
      then show ?thesis using closer avg True r'(3) p ahead by (simp add: out_of_range_def)
    next
      case (Suc m)
      have "p - 1 = Suc (ahead ?L (at_ring r') i + ?L * m)" "p \<noteq> 1" using True at ahead p L Suc by simp_all
      then show ?thesis using closer Suc r' by (auto simp: passes_left_def)
    qed
  qed
  then show ?thesis using pass r'(1,2) by blast
qed

text \<open>A burn in which thread \<open>k\<close> alone reads PT1 and needs \<open>p\<close> more passes.\<close>

definition rising :: "platform \<Rightarrow> hw_call list \<Rightarrow> u64 \<Rightarrow> real \<Rightarrow> nat \<Rightarrow> nat \<Rightarrow> stand \<Rightarrow> bool" where
  "rising pf h t0 c k p s \<longleftrightarrow> in_burn h t0 s \<and> k < length (threads s) \<and>
     hot_reader pf h c (threads s ! k) \<and> passes_left c (threads s ! k) p \<and>
     (\<forall>j < length (threads s). j \<noteq> k \<longrightarrow>
        roomy (threads s ! j) \<and> PT1 \<notin> sensor ` set (rings (locals (threads s ! j))))"

fun passes_of :: "nat \<Rightarrow> turn list \<Rightarrow> nat" where
  "passes_of k [] = 0"
| "passes_of k (Pass j # ts) = (if j = k then 1 else 0) + passes_of k ts"
| "passes_of k (_ # ts) = passes_of k ts"

lemma replicate_turns [simp]:
  "passes_of k (replicate n (Pass k)) = n" "monitor_turns (replicate n (Monitor_turn now)) = n"
  by (induction n) simp_all

lemma rising_pass:
  assumes "rising pf h t0 c k p s" and "rounding pf = (\<lambda>x. x)"
  shows "\<exists>s'. take_turn cfg pf (Pass k) s = Inr s' \<and>
     (if p = 1 then overheating pf h t0 s' else rising pf h t0 c k (p - 1) s')"
proof -
  let ?r = "threads s ! k" and ?w = "shared s"
  have burn: "in_burn h t0 s" and k: "k < length (threads s)" and r: "hot_reader pf h c ?r" "passes_left c ?r p"
    and w: "\<not> adc_mutex ?w" "prefix h (calls ?w)"
    using assms(1) by (simp_all add: rising_def in_burn_def)
  obtain r' cs b where pass: "thread_pass pf ?r ?w = Inr (r', ?w\<lparr>calls := calls ?w @ cs, adc_mutex := False, pressureShutoff := b\<rparr>)"
    and r': "filter valve_call cs = []" "hot_reader pf h c r'"
      "if p = 1 then pressureMax (obj r') < combAvg (locals r') \<and> b else passes_left c r' (p - 1)"
    using passes_left_pass [OF r w assms(2)] by blast
  let ?s = "s\<lparr>threads := (threads s)[k := r'],
     shared := ?w\<lparr>calls := calls ?w @ cs, adc_mutex := False, pressureShutoff := b\<rparr>\<rparr>"
  have run: "take_turn cfg pf (Pass k) s = Inr ?s" and burn': "in_burn h t0 ?s"
    using pass k in_burn_pass [OF burn r'(1)] by simp_all
  have "\<forall>q \<in> set (threads ?s). roomy q \<and> overpressure pf h q" if "p = 1"
  proof -
    have "overpressure pf h r'" "roomy r'"
      using r'(2,3) that by (auto simp: overpressure_def hot_reader_def intro: less_le_trans)
    then show ?thesis
      using assms(1) k overpressure_without
      by (auto simp: rising_def in_set_conv_nth nth_list_update)
  qed
  moreover have "rising pf h t0 c k (p - 1) ?s" if "p \<noteq> 1"
    using assms(1) burn' k r'(2,3) that by (simp add: rising_def nth_list_update)
  ultimately show ?thesis using run burn' r'(3) by (auto simp: overheating_def)
qed

lemma rising_turn:
  assumes "rising pf h t0 c k p s" and "mild t" and "pc (mon s) \<noteq> Entering" and "rounding pf = (\<lambda>x. x)" and "t \<noteq> Pass k"
  shows "\<exists>s'. take_turn cfg pf t s = Inr s' \<and> rising pf h t0 c k p s'"
proof (cases "\<exists>j. t = Pass j \<and> j < length (threads s)")
  case True
  then obtain j where j: "t = Pass j" "j < length (threads s)" "j \<noteq> k" using assms(5) by blast
  have burn: "in_burn h t0 s" and r: "roomy (threads s ! j)" "PT1 \<notin> sensor ` set (rings (locals (threads s ! j)))"
    and w: "\<not> adc_mutex (shared s)"
    using assms(1) j by (simp_all add: rising_def in_burn_def)
  obtain r' cs b where pass: "thread_pass pf (threads s ! j) (shared s) =
      Inr (r', (shared s)\<lparr>calls := calls (shared s) @ cs, adc_mutex := False, pressureShutoff := b\<rparr>)"
    and r': "filter valve_call cs = []" "roomy r'" "map sensor (rings (locals r')) = map sensor (rings (locals (threads s ! j)))"
    using roomy_pass [OF r(1) w, of pf] by blast
  have "PT1 \<notin> sensor ` set (rings (locals r'))" using r(2) r'(3) by (metis set_map)
  then show ?thesis
    using assms(1) pass j r'(2) in_burn_pass [OF burn r'(1), where rs = "(threads s)[j := r']" and b = b]
    by (auto simp: rising_def nth_list_update)
next
  case False
  show ?thesis
  proof (cases "\<exists>j. t = Pass j")
    case True
    then show ?thesis using False assms(1) by auto
  next
    case False
    have "in_burn h t0 s" using assms(1) by (simp add: rising_def)
    from in_burn_turn [OF this assms(2) _ assms(3), of cfg pf] False assms(1)
    show ?thesis by (auto simp: rising_def)
  qed
qed

text \<open>The turns end the burn on their way or lead to a signalled overpressure.\<close>

definition heats_up :: "burn_config \<Rightarrow> platform \<Rightarrow> hw_call list \<Rightarrow> u64 \<Rightarrow> turn list \<Rightarrow> stand \<Rightarrow> bool" where
  "heats_up cfg pf h t0 ts s \<longleftrightarrow> (\<exists>s'. (take_turns cfg pf ts s = Inr s' \<and> overheating pf h t0 s') \<or>
     (\<exists>j \<le> length ts. take_turns cfg pf (take j ts) s = Inr s' \<and> in_burn h t0 s' \<and> pc (mon s') = Entering))"

lemma heats_up_over: "in_burn h t0 s \<Longrightarrow> pc (mon s) = Entering \<Longrightarrow> heats_up cfg pf h t0 ts s"
  unfolding heats_up_def by (intro exI [of _ s] disjI2 exI [of _ 0]) simp

lemma heats_up_step:
  assumes "take_turn cfg pf t s = Inr s1" and "heats_up cfg pf h t0 ts s1"
  shows "heats_up cfg pf h t0 (t # ts) s"
proof -
  have "take_turns cfg pf (take (Suc j) (t # ts)) s = take_turns cfg pf (take j ts) s1" for j
    using assms(1) by simp
  then show ?thesis
    using assms unfolding heats_up_def by (metis Suc_le_mono length_Cons sum.simps(6) take_turns.simps(2))
qed

lemma overheating_heats_up:
  assumes "overheating pf h t0 s" and "\<forall>t \<in> set ts. mild t" and "rounding pf = (\<lambda>x. x)"
  shows "heats_up cfg pf h t0 ts s"
  using assms(1,2)
proof (induction ts arbitrary: s)
  case Nil
  then show ?case by (auto simp: heats_up_def)
next
  case (Cons t ts)
  show ?case
  proof (cases "pc (mon s) = Entering")
    case True
    then show ?thesis using Cons.prems(1) heats_up_over by (simp add: overheating_def)
  next
    case False
    have "mild t" using Cons.prems(2) by simp
    then obtain s1 where "take_turn cfg pf t s = Inr s1" "overheating pf h t0 s1"
      using overheating_keeps [OF Cons.prems(1) _ False assms(3)] by blast
    then show ?thesis using Cons.IH [of s1] Cons.prems(2) heats_up_step by simp
  qed
qed

lemma rising_heats_up:
  assumes "rising pf h t0 c k p s" and "\<forall>t \<in> set ts. mild t" and "rounding pf = (\<lambda>x. x)" and "p \<le> passes_of k ts"
  shows "heats_up cfg pf h t0 ts s"
  using assms(1,2,4)
proof (induction ts arbitrary: p s)
  case Nil
  then show ?case by (simp add: rising_def passes_left_def)
next
  case (Cons t ts)
  have mild: "\<forall>t \<in> set ts. mild t" "mild t" using Cons.prems(2) by simp_all
  consider "pc (mon s) = Entering" | "t = Pass k" | "pc (mon s) \<noteq> Entering" "t \<noteq> Pass k" by blast
  then show ?case
  proof cases
    case 1
    then show ?thesis using Cons.prems(1) heats_up_over by (simp add: rising_def)
  next
    case 2
    then obtain s1 where s1: "take_turn cfg pf t s = Inr s1" "if p = 1 then overheating pf h t0 s1 else rising pf h t0 c k (p - 1) s1"
      using rising_pass [OF Cons.prems(1) assms(3)] by blast
    have "heats_up cfg pf h t0 ts s1"
    proof (cases "p = 1")
      case True
      then show ?thesis using overheating_heats_up [OF _ mild(1) assms(3)] s1(2) by simp
    next
      case False
      then show ?thesis using Cons.IH [OF _ mild(1), of "p - 1" s1] s1(2) 2 Cons.prems(3) by simp
    qed
    then show ?thesis by (rule heats_up_step [OF s1(1)])
  next
    case 3
    then obtain s1 where s1: "take_turn cfg pf t s = Inr s1" "rising pf h t0 c k p s1"
      using rising_turn [OF Cons.prems(1) mild(2) _ assms(3)] by blast
    have "passes_of k (t # ts) = passes_of k ts" using 3(2) by (cases t) auto
    then show ?thesis using heats_up_step [OF s1(1)] Cons.IH [OF s1(2) mild(1)] Cons.prems(3) by simp
  qed
qed

text \<open>The two phases together: \<open>us\<close> has the passes that bring the average above the limit, \<open>vs\<close> the
  turns of the monitor that end the burn.\<close>

lemma rising_ends_burn:
  assumes "rising pf h t0 c k p s" and "shutoffEnabled cfg" and "rounding pf = (\<lambda>x. x)"
    and "\<forall>t \<in> set us. mild t" and "p \<le> passes_of k us"
    and "\<forall>t \<in> set vs. calm cfg t0 t" and "11 \<le> monitor_turns vs"
  shows "\<exists>j \<le> length (us @ vs). \<exists>s'. take_turns cfg pf (take j (us @ vs)) s = Inr s' \<and>
     pc (mon s') = Entering \<and> \<not> mainOpen (mon s') \<and> \<not> ignitionOn (shared s') \<and>
     commanded (calls (shared s')) MAIN_VALVE = Some LOW \<and> commanded (calls (shared s')) IGN_START = Some LOW"
proof -
  have "\<exists>j \<le> length (us @ vs). \<exists>s'. take_turns cfg pf (take j (us @ vs)) s = Inr s' \<and> in_burn h t0 s' \<and> pc (mon s') = Entering"
    using rising_heats_up [OF assms(1,4,3,5), of cfg] unfolding heats_up_def
  proof (elim exE disjE conjE)
    fix s1 assume one: "take_turns cfg pf us s = Inr s1" "overheating pf h t0 s1"
    have "turns_to_end cfg (mon s1) \<le> 11" by (cases "pc (mon s1)") (simp_all add: turns_to_end_def steps_to_shutoff_def)
    then obtain i s' where "i \<le> length vs" "take_turns cfg pf (take i vs) s1 = Inr s'" "in_burn h t0 s'" "pc (mon s') = Entering"
      using overheating_turns [OF one(2) assms(6,2,3)] assms(7) by (meson le_trans)
    then show ?thesis
      using one(1) by (intro exI [of _ "length us + i"] conjI exI [of _ s']) (simp_all add: take_turns_append)
  next
    fix s' j assume "j \<le> length us" "take_turns cfg pf (take j us) s = Inr s'" "in_burn h t0 s'" "pc (mon s') = Entering"
    then show ?thesis by (intro exI [of _ j] conjI exI [of _ s']) simp_all
  qed
  then show ?thesis using in_burn_over by blast
qed

lemma overpressure_ends_burn_witness:
  "\<exists>th k s'. let r = launch th (replicate 260 0);
       s = \<lparr>mon = \<lparr>pc = Opening, mainOpen = False, initTime = 0, timeElapsed = 300\<rparr>, todo = [],
             threads = [r\<lparr>locals := (locals r)\<lparr>combAvg := 900\<rparr>\<rparr>],
             shared = idle_world\<lparr>ignitionOn := True, pressureShutoff := True\<rparr>\<rparr> in
     take_turns burn_1s plain_platform (take k (concat (replicate 11 [Pass 0, Monitor_turn 600]))) s = Inr s' \<and>
     pc (mon s') = Entering \<and> commanded (calls (shared s')) MAIN_VALVE = Some LOW"
proof -
  obtain th where th: "new_PeriodicThread (\<lambda>x. x) (\<lambda>_. replicate 17 blank_item) 500 [PT1, PT2]
       800 300 (- 3 / 10) (11081 / 10) (Some 5) = Inr th" by (rule pair_thread)
  let ?r = "launch th (replicate 260 0)"
  let ?r' = "?r\<lparr>locals := (locals ?r)\<lparr>combAvg := 900\<rparr>\<rparr>"
  let ?s = "\<lparr>mon = \<lparr>pc = Opening, mainOpen = False, initTime = 0, timeElapsed = 300\<rparr>, todo = [],
      threads = [?r'], shared = idle_world\<lparr>ignitionOn := True, pressureShutoff := True\<rparr>\<rparr>"
  let ?ts = "concat (replicate 11 [Pass 0, Monitor_turn 600])"
  have "roomy ?r" by (rule launch_roomy [OF th]) simp_all
  then have "roomy ?r'" by (simp add: roomy_def connected_def)
  moreover have "fst (sampled plain_platform PT1 cs) = 480" for cs
    by (simp add: sampled_def plain_platform_def word_unat_eq_iff unat_assemble_unsigned)
  then have "overpressure plain_platform (calls (shared ?s)) ?r'"
    using constructed_thread [OF th] by (simp add: overpressure_def launch_def calibrated_def)
  ultimately have fit: "\<forall>r \<in> set (threads ?s). roomy r \<and> overpressure plain_platform (calls (shared ?s)) r" by simp
  have calm: "\<forall>t \<in> set ?ts. calm burn_1s (initTime (mon ?s)) t" by (auto simp: burn_1s_def)
  have count: "11 \<le> monitor_turns ?ts" by (simp add: numeral_eq_Suc)
  have "shutoffEnabled burn_1s" "rounding plain_platform = (\<lambda>x. x)"
    by (simp_all add: burn_1s_def plain_platform_def)
  from overpressure_ends_burn [OF _ this(1) _ _ _ fit this(2) calm count]
  obtain k s' where "take_turns burn_1s plain_platform (take k ?ts) ?s = Inr s'" "pc (mon s') = Entering"
    "commanded (calls (shared s')) MAIN_VALVE = Some LOW"
    by (auto simp: idle_world_def)
  then show ?thesis unfolding Let_def by blast
qed

end
