(* ===== verification/Resfet_Net.thy ===== *)
theory Resfet_Net
  imports Resfet_Base
begin

text \<open>
  The sockets (include/networking/, src/networking/): \<open>Tcp::ListenSocket\<close>,
  \<open>Tcp::ConnSocket\<close> and \<open>Udp::OutSocket\<close>.

  The kernel is outside the repository: the results of its calls are arguments, for the
  loops a list of results in the order of the calls; \<open>None\<close> is a call that does not
  return because the list is exhausted. \<open>open_fds\<close> lists the descriptors the kernel has
  handed out and not taken back. An exception is a value of \<open>outcome\<close>, beside the object
  as the method leaves it.
\<close>

section \<open>Outcomes\<close>

datatype net_exception =
    OpFailureException | BadSocketException | ClientDisconnectException | BadOutSocketException

datatype 'a outcome = Value 'a | Throws net_exception | Overruns

type_synonym fds = "int list"

section \<open>Sending and receiving\<close>

text \<open>One \<open>recv\<close>: the bytes it stored, none when the peer has closed, or -1. One \<open>send\<close> or
  \<open>sendto\<close>: how many bytes it took, or -1.\<close>

datatype recv_result = Received "u8 list" | Recv_failed

datatype send_result = Taken nat | Send_failed

text \<open>The loop of \<open>recvBuf\<close> with \<open>numToRead\<close> bytes to go: the outcome, whether the socket is
  still open, and the results not used.\<close>

fun recv_loop ::
  "recv_result list \<Rightarrow> nat \<Rightarrow> u8 list \<Rightarrow> (u8 list outcome \<times> bool \<times> recv_result list) option" where
  "recv_loop [] numToRead acc = (if numToRead = 0 then Some (Value acc, True, []) else None)"
| "recv_loop (r # rs) numToRead acc =
     (if numToRead = 0 then Some (Value acc, True, r # rs)
      else case r of
        Recv_failed \<Rightarrow> Some (Throws OpFailureException, True, rs)
      | Received bs \<Rightarrow>
          if length bs = 0 then Some (Throws ClientDisconnectException, False, rs)
          else if numToRead < length bs then Some (Overruns, True, rs)
          else recv_loop rs (numToRead - length bs) (acc @ bs))"

text \<open>The loop of \<open>sendBuf\<close>: the outcome, and the pieces the kernel took, in order.\<close>

fun send_loop :: "send_result list \<Rightarrow> u8 list \<Rightarrow> u8 list list \<Rightarrow> (unit outcome \<times> u8 list list) option" where
  "send_loop [] buf out = (if buf = [] then Some (Value (), out) else None)"
| "send_loop (r # rs) buf out =
     (if buf = [] then Some (Value (), out)
      else case r of
        Send_failed \<Rightarrow> Some (Throws OpFailureException, out)
      | Taken k \<Rightarrow>
          if length buf < k then Some (Overruns, out)
          else send_loop rs (drop k buf) (out @ [take k buf]))"

section \<open>Tcp::ConnSocket\<close>

record ConnSocket =
  conn_fd :: int
  clientHost :: string
  clientServ :: string
  conn_open :: bool

definition new_ConnSocket :: ConnSocket where
  "new_ConnSocket = \<lparr>conn_fd = - 1, clientHost = [], clientServ = [], conn_open = False\<rparr>"

definition recvBuf ::
  "recv_result list \<Rightarrow> nat \<Rightarrow> ConnSocket \<Rightarrow> (u8 list outcome \<times> ConnSocket \<times> recv_result list) option" where
  "recvBuf rs n so =
     (if \<not> conn_open so then Some (Throws BadSocketException, so, rs)
      else case recv_loop rs n [] of
        None \<Rightarrow> None
      | Some (res, still_open, rs') \<Rightarrow> Some (res, so\<lparr>conn_open := still_open\<rparr>, rs'))"

definition recvByte ::
  "recv_result list \<Rightarrow> ConnSocket \<Rightarrow> (u8 outcome \<times> ConnSocket \<times> recv_result list) option" where
  "recvByte rs so =
     (case recvBuf rs 1 so of
        None \<Rightarrow> None
      | Some (Value bs, so', rs') \<Rightarrow> Some (Value (hd bs), so', rs')
      | Some (Throws e, so', rs') \<Rightarrow> Some (Throws e, so', rs')
      | Some (Overruns, so', rs') \<Rightarrow> Some (Overruns, so', rs'))"

definition conn_sendBuf :: "send_result list \<Rightarrow> u8 list \<Rightarrow> ConnSocket \<Rightarrow> (unit outcome \<times> u8 list list) option" where
  "conn_sendBuf rs buf so =
     (if \<not> conn_open so then Some (Throws BadSocketException, []) else send_loop rs buf [])"

definition conn_sendByte :: "send_result list \<Rightarrow> u8 \<Rightarrow> ConnSocket \<Rightarrow> (unit outcome \<times> u8 list list) option" where
  "conn_sendByte rs b so = conn_sendBuf rs [b] so"

text \<open>\<open>close\<close>, with the result of the kernel's \<open>close\<close>. A failed close leaves the descriptor in
  the object.\<close>

definition conn_close :: "int \<Rightarrow> ConnSocket \<Rightarrow> fds \<Rightarrow> unit outcome \<times> ConnSocket \<times> fds" where
  "conn_close res so open_fds =
     (let so1 = so\<lparr>conn_open := False\<rparr> in
      if conn_fd so > - 1 then
        (if res < 0 then (Throws OpFailureException, so1, open_fds)
         else (Value (), so1\<lparr>conn_fd := - 1\<rparr>, remove1 (conn_fd so) open_fds))
      else (Value (), so1\<lparr>conn_fd := - 1\<rparr>, open_fds))"

section \<open>Tcp::ListenSocket\<close>

record ListenSocket =
  listen_port :: int
  listen_fd :: int
  listening :: bool

definition blank_ListenSocket :: ListenSocket where
  "blank_ListenSocket = \<lparr>listen_port = 0, listen_fd = - 1, listening = False\<rparr>"

text \<open>The constructor, with the results of \<open>socket\<close>, \<open>setsockopt\<close> and \<open>bind\<close>: when it throws,
  the object is gone, and with it its descriptor.\<close>

definition new_ListenSocket :: "int \<Rightarrow> int \<Rightarrow> int \<Rightarrow> int \<Rightarrow> fds \<Rightarrow> ListenSocket outcome \<times> fds" where
  "new_ListenSocket prt sockFd opt bound open_fds =
     (if sockFd < 0 then (Throws OpFailureException, open_fds)
      else if opt < 0 then (Throws OpFailureException, sockFd # open_fds)
      else if bound < 0 then (Throws OpFailureException, sockFd # open_fds)
      else (Value (blank_ListenSocket\<lparr>listen_port := prt, listen_fd := sockFd\<rparr>), sockFd # open_fds))"

definition listen :: "int \<Rightarrow> ListenSocket \<Rightarrow> unit outcome \<times> ListenSocket" where
  "listen res li =
     (if res < 0 then (Throws OpFailureException, li) else (Value (), li\<lparr>listening := True\<rparr>))"

text \<open>\<open>accept\<close>, with the result of the kernel's \<open>accept\<close> and the names \<open>getnameinfo\<close> found, if
  any.\<close>

definition accept ::
  "int \<Rightarrow> (string \<times> string) option \<Rightarrow> ListenSocket \<Rightarrow> fds \<Rightarrow> ConnSocket outcome \<times> fds" where
  "accept connFd names li open_fds =
     (if \<not> listening li then (Throws BadSocketException, open_fds)
      else if connFd < 0 then (Throws OpFailureException, open_fds)
      else (let (host, serv) = (case names of None \<Rightarrow> (''Unknown'', ''Unknown'') | Some n \<Rightarrow> n)
            in (Value (new_ConnSocket\<lparr>conn_fd := connFd, conn_open := True, clientHost := host,
                        clientServ := serv\<rparr>), connFd # open_fds)))"

definition listen_close :: "int \<Rightarrow> ListenSocket \<Rightarrow> fds \<Rightarrow> unit outcome \<times> ListenSocket \<times> fds" where
  "listen_close res li open_fds =
     (let li1 = li\<lparr>listening := False\<rparr> in
      if listen_fd li > - 1 then
        (if res < 0 then (Throws OpFailureException, li1, open_fds)
         else (Value (), li1\<lparr>listen_fd := - 1\<rparr>, remove1 (listen_fd li) open_fds))
      else (Value (), li1\<lparr>listen_fd := - 1\<rparr>, open_fds))"

section \<open>Udp::OutSocket\<close>

record OutSocket =
  out_fd :: int
  out_dest :: "u16 \<times> u32"
  destHost :: string
  destServ :: string
  out_open :: bool

definition new_OutSocket :: OutSocket where
  "new_OutSocket = \<lparr>out_fd = - 1, out_dest = (0, 0), destHost = [], destServ = [], out_open = False\<rparr>"

definition enable :: "int \<Rightarrow> int \<Rightarrow> OutSocket \<Rightarrow> fds \<Rightarrow> unit outcome \<times> OutSocket \<times> fds" where
  "enable sockFd opt so open_fds =
     (if sockFd = - 1 then (Throws OpFailureException, so, open_fds)
      else if opt < 0 then (Throws OpFailureException, so, sockFd # open_fds)
      else (Value (), so\<lparr>out_fd := sockFd, out_open := True\<rparr>, sockFd # open_fds))"

text \<open>\<open>setDest\<close>, with the address \<open>inet_aton\<close> parsed, if any, and the names of \<open>getnameinfo\<close>.
  The port is truncated to the 16 bits of \<open>htons\<close>.\<close>

definition setDest ::
  "u32 option \<Rightarrow> u32 \<Rightarrow> (string \<times> string) option \<Rightarrow> OutSocket \<Rightarrow> unit outcome \<times> OutSocket" where
  "setDest ia prt names so =
     (case ia of
        None \<Rightarrow> (Throws OpFailureException, so)
      | Some a \<Rightarrow>
          let (host, serv) = (case names of None \<Rightarrow> (''Unknown'', ''Unknown'') | Some n \<Rightarrow> n)
          in (Value (), so\<lparr>out_dest := (ucast prt, a), destHost := host, destServ := serv\<rparr>))"

text \<open>The second constructor; when it throws, the object is gone.\<close>

definition new_OutSocket_to ::
  "u32 option \<Rightarrow> u32 \<Rightarrow> (string \<times> string) option \<Rightarrow> unit outcome \<times> OutSocket" where
  "new_OutSocket_to ia prt names = setDest ia prt names new_OutSocket"

definition out_sendBuf :: "send_result list \<Rightarrow> u8 list \<Rightarrow> OutSocket \<Rightarrow> (unit outcome \<times> u8 list list) option" where
  "out_sendBuf rs buf so =
     (if \<not> out_open so then Some (Throws BadOutSocketException, []) else send_loop rs buf [])"

definition out_sendByte :: "send_result list \<Rightarrow> u8 \<Rightarrow> OutSocket \<Rightarrow> (unit outcome \<times> u8 list list) option" where
  "out_sendByte rs b so = out_sendBuf rs [b] so"

definition out_close :: "int \<Rightarrow> OutSocket \<Rightarrow> fds \<Rightarrow> unit outcome \<times> OutSocket \<times> fds" where
  "out_close res so open_fds =
     (let so1 = so\<lparr>out_open := False\<rparr> in
      if out_fd so > - 1 then
        (if res < 0 then (Throws OpFailureException, so1, open_fds)
         else (Value (), so1\<lparr>out_fd := - 1\<rparr>, remove1 (out_fd so) open_fds))
      else (Value (), so1\<lparr>out_fd := - 1\<rparr>, open_fds))"

section \<open>Getters\<close>

definition getPort :: "ListenSocket \<Rightarrow> int" where "getPort li = listen_port li"

definition listen_getFd :: "ListenSocket \<Rightarrow> int" where "listen_getFd li = listen_fd li"

definition isListening :: "ListenSocket \<Rightarrow> bool" where "isListening li = listening li"

definition conn_getFd :: "ConnSocket \<Rightarrow> int" where "conn_getFd so = conn_fd so"

definition getClientHostname :: "ConnSocket \<Rightarrow> string" where "getClientHostname so = clientHost so"

definition getClientService :: "ConnSocket \<Rightarrow> string" where "getClientService so = clientServ so"

definition conn_isOpen :: "ConnSocket \<Rightarrow> bool" where "conn_isOpen so = conn_open so"

definition out_getFd :: "OutSocket \<Rightarrow> int" where "out_getFd so = out_fd so"

definition getDestHost :: "OutSocket \<Rightarrow> string" where "getDestHost so = destHost so"

definition getDestServ :: "OutSocket \<Rightarrow> string" where "getDestServ so = destServ so"

definition out_isOpen :: "OutSocket \<Rightarrow> bool" where "out_isOpen so = out_open so"

section \<open>The loops\<close>

text \<open>What the loops rely on: \<open>recv\<close> and \<open>send\<close> handle at most the bytes they are given room
  for, and \<open>recv\<close> at least one.\<close>

fun recv_fits :: "u8 list list \<Rightarrow> nat \<Rightarrow> bool" where
  "recv_fits [] n \<longleftrightarrow> n = 0"
| "recv_fits (bs # bss) n \<longleftrightarrow> bs \<noteq> [] \<and> length bs \<le> n \<and> recv_fits bss (n - length bs)"

lemma recv_loop_chunks:
  "recv_fits bss n \<Longrightarrow>
   recv_loop (map Received bss @ rs) n acc = Some (Value (acc @ concat bss), True, rs)"
proof (induction bss n arbitrary: acc rule: recv_fits.induct)
  case (1 n)
  then show ?case by (cases rs) auto
next
  case (2 bs bss n)
  then show ?case by (cases n) auto
qed

fun recv_short :: "u8 list list \<Rightarrow> nat \<Rightarrow> bool" where
  "recv_short [] n \<longleftrightarrow> 0 < n"
| "recv_short (bs # bss) n \<longleftrightarrow> bs \<noteq> [] \<and> length bs < n \<and> recv_short bss (n - length bs)"

lemma recv_loop_short:
  "recv_short bss n \<Longrightarrow>
   recv_loop (map Received bss @ Received [] # rs) n acc = Some (Throws ClientDisconnectException, False, rs) \<and>
   recv_loop (map Received bss @ Recv_failed # rs) n acc = Some (Throws OpFailureException, True, rs) \<and>
   recv_loop (map Received bss) n acc = None"
proof (induction bss n arbitrary: acc rule: recv_short.induct)
  case (2 bs bss n)
  then show ?case by (cases n) auto
qed auto

fun send_fits :: "nat list \<Rightarrow> nat \<Rightarrow> bool" where
  "send_fits [] n \<longleftrightarrow> n = 0"
| "send_fits (k # ks) n \<longleftrightarrow> 0 < n \<and> k \<le> n \<and> send_fits ks (n - k)"

fun pieces :: "nat list \<Rightarrow> 'a list \<Rightarrow> 'a list list" where
  "pieces [] xs = []"
| "pieces (k # ks) xs = take k xs # pieces ks (drop k xs)"

lemma concat_pieces: "send_fits ks (length xs) \<Longrightarrow> concat (pieces ks xs) = xs"
  by (induction ks arbitrary: xs) auto

lemma send_loop_pieces:
  "send_fits ks (length buf) \<Longrightarrow>
   send_loop (map Taken ks @ rs) buf out = Some (Value (), out @ pieces ks buf)"
proof (induction ks arbitrary: buf out)
  case Nil
  then show ?case by (cases rs) auto
next
  case (Cons k ks)
  then show ?case by auto
qed

section \<open>Properties\<close>

text \<open>C27: however the kernel splits the stream, \<open>recvBuf\<close> on an open socket returns exactly the
  next bytes of the stream in order and uses no result beyond them; when the peer closes
  before that, or an error occurs, it throws the exception of its documentation, and only
  the closed connection closes the socket.\<close>

theorem recvBuf_reassembles:
  assumes "conn_open so"
  shows "(recv_fits bss n \<longrightarrow> recvBuf (map Received bss @ rs) n so = Some (Value (concat bss), so, rs)) \<and>
     (recv_short bss n \<longrightarrow>
        recvBuf (map Received bss @ Received [] # rs) n so =
          Some (Throws ClientDisconnectException, so\<lparr>conn_open := False\<rparr>, rs) \<and>
        recvBuf (map Received bss @ Recv_failed # rs) n so = Some (Throws OpFailureException, so, rs))"
  using assms recv_loop_chunks [of bss n rs "[]"] recv_loop_short [of bss n rs "[]"]
  by (auto simp: recvBuf_def)

theorem recvBuf_reassembles_witness:
  "recvBuf [Received [1, 2], Received [3], Received [9]] 3 (new_ConnSocket\<lparr>conn_open := True\<rparr>) =
     Some (Value [1, 2, 3], new_ConnSocket\<lparr>conn_open := True\<rparr>, [Received [9]])"
  using recvBuf_reassembles [of "new_ConnSocket\<lparr>conn_open := True\<rparr>" "[[1, 2], [3]]" 3 "[Received [9]]"]
  by simp

text \<open>C33: on an open socket, TCP or UDP, \<open>sendBuf\<close> hands the kernel the whole buffer in order and
  nothing twice, whatever pieces the kernel takes; and a kernel that takes a datagram whole
  gets exactly one.\<close>

theorem sendBuf_sends_all:
  assumes "send_fits ks (length buf)"
  shows "\<exists>out. concat out = buf \<and>
     (conn_open so \<longrightarrow> conn_sendBuf (map Taken ks @ rs) buf so = Some (Value (), out)) \<and>
     (out_open uo \<longrightarrow> out_sendBuf (map Taken ks @ rs) buf uo = Some (Value (), out)) \<and>
     (ks = [length buf] \<longrightarrow> out = [buf])"
  using assms send_loop_pieces [OF assms, of rs "[]"] concat_pieces [OF assms]
  by (intro exI [of _ "pieces ks buf"]) (auto simp: conn_sendBuf_def out_sendBuf_def)

theorem sendBuf_sends_all_witness:
  "\<exists>out. concat out = [1, 2, 3] \<and>
     out_sendBuf [Taken 1, Taken 0, Taken 2] [1, 2, 3] (new_OutSocket\<lparr>out_open := True\<rparr>) = Some (Value (), out)"
  using sendBuf_sends_all [of "[1, 0, 2]" "[1, 2, 3]" new_ConnSocket "[]" "new_OutSocket\<lparr>out_open := True\<rparr>"]
  by auto

end
