(* ===== verification/Resfet_Main.thy ===== *)
theory Resfet_Main
  imports Resfet_Net Resfet_Visitor Resfet_Thread
begin

text \<open>
  The main program (src/main.cpp): what it does up to the first \<open>accept\<close>, and the loop that
  serves one client after another.

  Everything the environment decides during the start is a field of \<open>boot\<close>: the command
  line and the file it names, the results of the library and kernel calls, and the
  contents of memory the program reads without having written it. Output to stdout is
  left out. A client is its descriptor, its name, what \<open>recv\<close> returns and how closing it
  ends.
\<close>

section \<open>Serving clients\<close>

datatype session_end = Ended_by_client | Client_lost | Read_failed | Blocked | Aborted

lemma recv_loop_consumes:
  "recv_loop rs n acc = Some (Value bs, b, rs') \<Longrightarrow> 0 < n \<Longrightarrow> length rs' < length rs"
proof (induction rs n acc rule: recv_loop.induct)
  case (2 r rs n acc)
  show ?case
  proof (cases r)
    case (Received cs)
    then have "recv_loop rs (n - length cs) (acc @ cs) = Some (Value bs, b, rs')"
      using 2 by (auto split: if_splits)
    then have "length rs' \<le> length rs"
      using 2 Received by (cases "n = length cs"; cases rs) (auto split: if_splits)
    then show ?thesis by simp
  qed (use 2 in \<open>simp split: if_splits\<close>)
qed (simp split: if_splits)

lemma recvByte_consumes: "recvByte rs so = Some (Value b, so', rs') \<Longrightarrow> length rs' < length rs"
  using recv_loop_consumes [of rs 1 "[]"]
  by (auto simp: recvByte_def recvBuf_def split: option.splits outcome.splits if_splits prod.splits)

text \<open>The inner loop: bytes are commands until an ASCII zero.\<close>

function command_loop ::
  "(COMMAND \<Rightarrow> world \<Rightarrow> world) \<Rightarrow> recv_result list \<Rightarrow> ConnSocket \<Rightarrow> world \<Rightarrow> session_end \<times> ConnSocket \<times> world" where
  "command_loop visit rs so w =
     (case recvByte rs so of
        None \<Rightarrow> (Blocked, so, w)
      | Some (Value b, so', rs') \<Rightarrow>
          if b = 48 then (Ended_by_client, so', w)
          else command_loop visit rs' so'
                 (visit (COMMAND_of b) (logger_log INFO ''Received command: (%d)\<newline>'' [Num (unat b)] w))
      | Some (Throws ClientDisconnectException, so', rs') \<Rightarrow>
          (Client_lost, so', logger_log INFO ''Client disconnected prematurely\<newline>'' [] w)
      | Some (Throws OpFailureException, so', rs') \<Rightarrow>
          (Read_failed, so', logger_log INFO ''Problem reading, closing connection\<newline>'' [] w)
      | Some (_, so', rs') \<Rightarrow> (Aborted, so', w))"
  by pat_completeness auto
termination
  by (relation "measure (\<lambda>(visit, rs, so, w). length rs)") (auto dest: recvByte_consumes)

declare command_loop.simps [simp del]

record client =
  accepted_fd :: int
  names :: "(string \<times> string) option"
  input :: "recv_result list"
  close_result :: int

text \<open>What becomes of the outer loop: it waits for a client, it waits for input of a client, it
  returns from main, or an exception leaves main.\<close>

datatype main_end = Accepting | Receiving | Returned int | Terminated

fun serve ::
  "(COMMAND \<Rightarrow> world \<Rightarrow> world) \<Rightarrow> client list \<Rightarrow> ListenSocket \<Rightarrow> fds \<Rightarrow> world \<Rightarrow> main_end \<times> fds \<times> world" where
  "serve visit [] li open_fds w = (Accepting, open_fds, w)"
| "serve visit (c # cs) li open_fds w =
     (case accept (accepted_fd c) (names c) li open_fds of
        (Throws OpFailureException, open_fds') \<Rightarrow>
          (Returned (- 1), open_fds', logger_log ERROR ''Unable to accept a connection\<newline>'' [] w)
      | (Value so, open_fds') \<Rightarrow>
          (case command_loop visit (input c) so
                  (logger_log INFO ''Connected to client: %s\<newline>'' [Str (clientHost so)] w) of
             (Blocked, so', w') \<Rightarrow> (Receiving, open_fds', w')
           | (Aborted, so', w') \<Rightarrow> (Terminated, open_fds', w')
           | (_, so', w') \<Rightarrow>
               (case conn_close (close_result c) so' open_fds' of
                  (Value _, _, open_fds'') \<Rightarrow> serve visit cs li open_fds'' w'
                | (_, _, open_fds'') \<Rightarrow> (Terminated, open_fds'', w')))
      | (_, open_fds') \<Rightarrow> (Terminated, open_fds', w))"

section \<open>Start\<close>

text \<open>The pressure limits: each of the four values on its own is the one of the file or its
  default, and the sum of the return codes only decides about a warning.\<close>

definition pressure_config ::
  "(string \<Rightarrow> real) \<Rightarrow> config_map \<Rightarrow> nat \<times> real \<times> real \<times> real \<times> real" where
  "pressure_config atof m =
     (let (r1, pmax) = getDouble atof m ''Pressure'' ''pressure_max'' 800;
          (r2, pmin) = getDouble atof m ''Pressure'' ''pressure_min'' 300;
          (r3, slope) = getDouble atof m ''Pressure'' ''pressure_slope'' (- 3 / 10);
          (r4, yint) = getDouble atof m ''Pressure'' ''pressure_yint'' (11081 / 10)
      in (unat r1 + unat r2 + unat r3 + unat r4, pmax, pmin, slope, yint))"

record boot =
  has_argument :: bool
  config_file :: "string option"
  bcm2835_init_ok :: bool
  aton :: "string \<Rightarrow> u32 option"
  dest_names :: "(string \<times> string) option"
  udp_socket :: int
  udp_option :: int
  tcp_socket :: int
  tcp_option :: int
  tcp_bind :: int
  tcp_listen :: int
  boot_atof :: "string \<Rightarrow> real"
  boot_rounding :: "real \<Rightarrow> real"
  ring_memory :: "SENSOR \<Rightarrow> data_item list"
  raw_address :: "char list"
  raw_port :: u32
  raw_bool :: "string \<Rightarrow> u32"
  raw_luna :: LunaVisitor
  raw_worker :: WorkerVisitor

datatype engine = Luna | Titan

record running =
  engine :: engine
  udp :: OutSocket
  listener :: ListenSocket
  lc_thread :: PeriodicThread
  pt_thread_of :: PeriodicThread
  tc_thread :: PeriodicThread
  burn :: burn_config

datatype start = Exit int | Hangs | Undefined_behaviour ub | Running running

definition lcs :: "SENSOR list" where "lcs = [LC1, LC2, LC3, LC4, LC5]"
definition pts :: "SENSOR list" where "pts = [PT1, PT2, PT3, PT4]"
definition tcs :: "SENSOR list" where "tcs = [TC1, TC2, TC3, TC4]"

definition frequency :: "SENSOR \<Rightarrow> u16" where
  "frequency s = SENSOR_FREQS ! unat (sensor_code s)"

text \<open>The visitor and the pins, chosen by \<open>engine_type\<close>: 0 is Luna.\<close>

definition start_engine :: "boot \<Rightarrow> config_map \<Rightarrow> world \<Rightarrow> engine \<times> burn_config \<times> world" where
  "start_engine bt m w =
     (if \<not> snd (getBool (raw_bool bt ''engine_type'') m ''Main'' ''engine_type'') then
        (let (v, w1) = new_LunaVisitor m (raw_luna bt) (raw_bool bt ''shutoff_enabled'') (raw_bool bt ''use_gitvc'') w
         in (Luna, ign_args (worker v), initialize_pins w1))
      else
        (let (v, w1) = new_TitanVisitor m (raw_worker bt) (raw_bool bt ''shutoff_enabled'') w
         in (Titan, ign_args v, titan_initialize_pins w1)))"

definition start_threads ::
  "boot \<Rightarrow> config_map \<Rightarrow> int \<Rightarrow> ub + (PeriodicThread \<times> PeriodicThread \<times> PeriodicThread)" where
  "start_threads bt m fd =
     (let (readAll, pmax, pmin, slope, yint) = pressure_config (boot_atof bt) m;
          thread = (\<lambda>s ss. new_PeriodicThread (boot_rounding bt) (ring_memory bt) (frequency s) ss
                             pmax pmin slope yint (Some fd))
      in case thread LC1 lcs of Inl e \<Rightarrow> Inl e | Inr lc \<Rightarrow>
         (case thread PT1 pts of Inl e \<Rightarrow> Inl e | Inr pt \<Rightarrow>
          (case thread TC1 tcs of Inl e \<Rightarrow> Inl e | Inr tc \<Rightarrow> Inr (lc, pt, tc))))"

text \<open>From the listening socket on.\<close>

definition start_listening ::
  "boot \<Rightarrow> config_map \<Rightarrow> OutSocket \<Rightarrow> fds \<Rightarrow> world \<Rightarrow> start \<times> fds \<times> world" where
  "start_listening bt m so open_fds w =
     (case start_threads bt m (out_fd so) of
        Inl e \<Rightarrow> (Undefined_behaviour e, open_fds, w)
      | Inr (lc, pt, tc) \<Rightarrow>
        (case new_ListenSocket 1234 (tcp_socket bt) (tcp_option bt) (tcp_bind bt) open_fds of
           (Value li, open_fds1) \<Rightarrow>
             (case listen (tcp_listen bt) li of
                (Value _, li1) \<Rightarrow>
                  (let (eng, args, w1) = start_engine bt m w
                   in (Running \<lparr>engine = eng, udp = so, listener = li1, lc_thread = lc,
                         pt_thread_of = pt, tc_thread = tc, burn = args\<rparr>, open_fds1, w1))
              | (_, li1) \<Rightarrow>
                  (Exit (- 1), open_fds1,
                   logger_log ERROR ''Could not create/open listening socket\<newline>'' [] w))
         | (_, open_fds1) \<Rightarrow>
             (Exit (- 1), open_fds1,
              logger_log ERROR ''Could not create/open listening socket\<newline>'' [] w)))"

text \<open>From the destination of the UDP socket on. The address is used as a C string, so it must
  hold a NUL within its 16 bytes.\<close>

definition start_udp ::
  "boot \<Rightarrow> config_map \<Rightarrow> fds \<Rightarrow> world \<Rightarrow> start \<times> fds \<times> world" where
  "start_udp bt m open_fds w =
     (let address = snd (getString m ''Network'' ''address'' (raw_address bt) 16);
          prt = snd (getInt m ''Network'' ''port'' (raw_port bt))
      in if NUL \<notin> set address then (Undefined_behaviour OutOfBounds, open_fds, w)
         else case setDest (aton bt (c_str address)) prt (dest_names bt) new_OutSocket of
           (Value _, so) \<Rightarrow>
             (case enable (udp_socket bt) (udp_option bt) so open_fds of
                (Value _, so1, open_fds1) \<Rightarrow>
                  start_listening bt m so1 open_fds1
                    (logger_log INFO ''Successfully started UDP server on %s:%d\<newline>''
                       [Str (c_str address), Num (unat prt)] w)
              | (_, so1, open_fds1) \<Rightarrow>
                  (Exit (- 1), open_fds1, logger_log ERROR ''Could not open socket\<newline>'' [] w))
         | (_, so) \<Rightarrow>
             (Exit (- 1), open_fds, logger_log ERROR ''Could not set destination\<newline>'' [] w))"

definition main_start :: "boot \<Rightarrow> world \<Rightarrow> start \<times> fds \<times> world" where
  "main_start bt w =
     (if \<not> has_argument bt then (Exit 1, [], w)
      else case readFrom (config_file bt) of
        None \<Rightarrow> (Hangs, [], w)
      | Some (Inl e) \<Rightarrow> (Undefined_behaviour e, [], w)
      | Some (Inr (rc, m)) \<Rightarrow>
          if rc \<noteq> 0 then (Exit 1, [], w)
          else if \<not> bcm2835_init_ok bt then (Exit 1, [], w)
          else (let (src, w1) = initialize_spi w in
                if src \<noteq> 0 then (Exit 1, [], w1)
                else start_udp bt m [] (w1\<lparr>ignitionOn := False, pressureShutoff := False\<rparr>)))"

section \<open>Sessions\<close>

definition exec_byte :: "(COMMAND \<Rightarrow> world \<Rightarrow> world) \<Rightarrow> u8 \<Rightarrow> world \<Rightarrow> world" where
  "exec_byte visit b w = visit (COMMAND_of b) (logger_log INFO ''Received command: (%d)\<newline>'' [Num (unat b)] w)"

lemma recvByte_results:
  assumes "conn_open so"
  shows "recvByte (Received [b] # rs) so = Some (Value b, so, rs)"
    and "recvByte (Received [] # rs) so = Some (Throws ClientDisconnectException, so\<lparr>conn_open := False\<rparr>, rs)"
    and "recvByte (Recv_failed # rs) so = Some (Throws OpFailureException, so, rs)"
  using assms by (cases rs; (simp add: recvByte_def recvBuf_def; fail))+

lemma command_loop_bytes:
  assumes "conn_open so" and "48 \<notin> set bs"
  shows "command_loop visit (map (\<lambda>b. Received [b]) bs @ rs) so w =
     command_loop visit rs so (fold (exec_byte visit) bs w)"
  using assms(2)
proof (induction bs arbitrary: w)
  case (Cons b bs)
  then show ?case
    by (subst command_loop.simps) (simp add: recvByte_results [OF assms(1)] exec_byte_def [of visit b w])
qed simp

lemma command_loop_ends:
  assumes "conn_open so"
  shows "command_loop visit (Received [48] # rs) so w = (Ended_by_client, so, w)"
    and "command_loop visit (Received [] # rs) so w =
      (Client_lost, so\<lparr>conn_open := False\<rparr>, logger_log INFO ''Client disconnected prematurely\<newline>'' [] w)"
    and "command_loop visit (Recv_failed # rs) so w =
      (Read_failed, so, logger_log INFO ''Problem reading, closing connection\<newline>'' [] w)"
  by (subst command_loop.simps, simp add: recvByte_results [OF assms])+

text \<open>How a session ends, and the log entry the end makes.\<close>

definition end_entry :: "recv_result \<Rightarrow> world \<Rightarrow> world" where
  "end_entry e w =
     (case e of
        Received [] \<Rightarrow> logger_log INFO ''Client disconnected prematurely\<newline>'' [] w
      | Recv_failed \<Rightarrow> logger_log INFO ''Problem reading, closing connection\<newline>'' [] w
      | _ \<Rightarrow> w)"

lemma end_entry_fields [simp]:
  "calls (end_entry e w) = calls w" "ignitionOn (end_entry e w) = ignitionOn w"
  by (simp_all add: end_entry_def split: recv_result.splits list.splits)

lemma command_loop_session:
  assumes "conn_open so" and "e \<in> {Received [], Recv_failed, Received [48]}"
  shows "\<exists>st so'. command_loop visit (map (\<lambda>b. Received [b]) bs @ e # rs) so w =
       (st, so', (if 48 \<in> set bs then id else end_entry e) (fold (exec_byte visit) (takeWhile (\<lambda>b. b \<noteq> 48) bs) w)) \<and>
     st \<in> {Ended_by_client, Client_lost, Read_failed} \<and> conn_fd so' = conn_fd so"
proof (cases "48 \<in> set bs")
  case True
  then obtain ys zs where bs: "bs = ys @ 48 # zs" "48 \<notin> set ys" by (meson split_list_first)
  have tw: "takeWhile (\<lambda>b. b \<noteq> 48) bs = ys" unfolding bs(1) using bs(2) by (subst takeWhile_append2) auto
  have "map (\<lambda>b. Received [b]) bs @ e # rs =
      map (\<lambda>b. Received [b]) ys @ Received [48] # map (\<lambda>b. Received [b]) zs @ e # rs"
    unfolding bs(1) by simp
  then have "command_loop visit (map (\<lambda>b. Received [b]) bs @ e # rs) so w =
      (Ended_by_client, so, fold (exec_byte visit) ys w)"
    by (simp only: command_loop_bytes [OF assms(1) bs(2)] command_loop_ends(1) [OF assms(1)])
  then show ?thesis unfolding tw using True by simp
next
  case False
  then have tw: "takeWhile (\<lambda>b. b \<noteq> 48) bs = bs" unfolding takeWhile_eq_all_conv by blast
  have "\<exists>st so'. command_loop visit (e # rs) so w' = (st, so', end_entry e w') \<and>
      st \<in> {Ended_by_client, Client_lost, Read_failed} \<and> conn_fd so' = conn_fd so" for w'
    using assms(2) by (auto simp: command_loop_ends [OF assms(1)] end_entry_def)
  then show ?thesis
    unfolding tw command_loop_bytes [OF assms(1) False] using False by simp
qed

section \<open>The interface of a visitor, continued\<close>

context visitor
begin

lemma exec_bytes:
  "calls (fold (exec_byte visitCommand) bs w) = calls w @ concat (map hw (map COMMAND_of bs))"
  "ignitionOn (fold (exec_byte visitCommand) bs w) = fold ignition_after (map COMMAND_of bs) (ignitionOn w)"
  by (induction bs arbitrary: w) (simp_all add: exec_byte_def visit_calls visit_ignition)

end

text \<open>A client that sends the bytes \<open>bs\<close> one at a time and then stops, leaves or breaks, and the
  commands main takes from it.\<close>

definition plain_client :: "int \<times> u8 list \<times> recv_result \<Rightarrow> client" where
  "plain_client c = (case c of (fd, bs, e) \<Rightarrow>
     \<lparr>accepted_fd = fd, names = None, input = map (\<lambda>b. Received [b]) bs @ [e], close_result = 0\<rparr>)"

definition commands_of :: "int \<times> u8 list \<times> recv_result \<Rightarrow> COMMAND list" where
  "commands_of c = map COMMAND_of (takeWhile (\<lambda>b. b \<noteq> 48) (fst (snd c)))"

lemma serve_one:
  assumes "listening li" and "0 \<le> fd" and "e \<in> {Received [], Recv_failed, Received [48]}"
  shows "serve visit (plain_client (fd, bs, e) # cs) li open_fds w =
     serve visit cs li open_fds
       ((if 48 \<in> set bs then id else end_entry e)
         (fold (exec_byte visit) (takeWhile (\<lambda>b. b \<noteq> 48) bs)
           (logger_log INFO ''Connected to client: %s\<newline>'' [Str ''Unknown''] w)))"
proof -
  let ?so = "new_ConnSocket\<lparr>conn_fd := fd, conn_open := True, clientHost := ''Unknown'', clientServ := ''Unknown''\<rparr>"
  have acc: "accept fd None li open_fds = (Value ?so, fd # open_fds)"
    using assms(1,2) by (simp add: accept_def)
  obtain st so' where run: "command_loop visit (map (\<lambda>b. Received [b]) bs @ e # []) ?so
        (logger_log INFO ''Connected to client: %s\<newline>'' [Str ''Unknown''] w) =
       (st, so', (if 48 \<in> set bs then id else end_entry e) (fold (exec_byte visit) (takeWhile (\<lambda>b. b \<noteq> 48) bs)
         (logger_log INFO ''Connected to client: %s\<newline>'' [Str ''Unknown''] w)))"
    and st: "st \<in> {Ended_by_client, Client_lost, Read_failed}" and fd: "conn_fd so' = fd"
    using command_loop_session [of ?so e visit bs "[]"] assms(3) by fastforce
  have "conn_close 0 so' (fd # open_fds) = (Value (), so'\<lparr>conn_open := False, conn_fd := - 1\<rparr>, open_fds)"
    using assms(2) fd by (simp add: conn_close_def Let_def)
  then show ?thesis
    using run st acc by (auto simp: plain_client_def)
qed

context visitor
begin

lemma serve_executes_commands:
  assumes "listening li" and "\<forall>(fd, bs, e) \<in> set cs. 0 \<le> fd \<and> e \<in> {Received [], Recv_failed, Received [48]}"
  shows "\<exists>w'. serve visitCommand (map plain_client cs) li open_fds w = (Accepting, open_fds, w') \<and>
     calls w' = calls w @ concat (map hw (concat (map commands_of cs))) \<and>
     ignitionOn w' = fold ignition_after (concat (map commands_of cs)) (ignitionOn w)"
  using assms(2)
proof (induction cs arbitrary: w)
  case (Cons c cs)
  obtain fd bs e where c: "c = (fd, bs, e)" by (cases c) auto
  let ?w = "(if 48 \<in> set bs then id else end_entry e)
         (fold (exec_byte visitCommand) (takeWhile (\<lambda>b. b \<noteq> 48) bs)
           (logger_log INFO ''Connected to client: %s\<newline>'' [Str ''Unknown''] w))"
  have "serve visitCommand (map plain_client (c # cs)) li open_fds w =
      serve visitCommand (map plain_client cs) li open_fds ?w"
    using serve_one [OF assms(1)] Cons.prems c by auto
  moreover have "calls ?w = calls w @ concat (map hw (commands_of c))"
    "ignitionOn ?w = fold ignition_after (commands_of c) (ignitionOn w)"
    by (auto simp: c commands_of_def exec_bytes comp_def)
  ultimately show ?case using Cons.IH [of ?w] Cons.prems by auto
qed simp

end



section \<open>The start\<close>

text \<open>What a step of the start leaves alone: pins, and, until the visitor is built, the flags.\<close>

lemma new_visitor_fields:
  "calls (snd (new_WorkerVisitor m raw tmp w)) = calls w"
  "ignitionOn (snd (new_WorkerVisitor m raw tmp w)) = False"
  "pressureShutoff (snd (new_WorkerVisitor m raw tmp w)) = pressureShutoff w"
  by (simp_all add: new_WorkerVisitor_def Let_def)

lemma fold_logger_fields:
  "calls (fold (\<lambda>x. logger_log lv fmt (f x)) xs w) = calls w"
  "ignitionOn (fold (\<lambda>x. logger_log lv fmt (f x)) xs w) = ignitionOn w"
  "pressureShutoff (fold (\<lambda>x. logger_log lv fmt (f x)) xs w) = pressureShutoff w"
  by (induction xs arbitrary: w) simp_all

lemma new_Luna_fields:
  "calls (snd (new_LunaVisitor m raw t1 t2 w)) = calls w"
  "ignitionOn (snd (new_LunaVisitor m raw t1 t2 w)) = False"
  "pressureShutoff (snd (new_LunaVisitor m raw t1 t2 w)) = pressureShutoff w"
  using new_visitor_fields [of m "worker raw" t1 w]
  by (auto simp: new_LunaVisitor_def Let_def split_beta fold_logger_fields)

lemma new_Luna_worker:
  "worker (fst (new_LunaVisitor m raw t1 t2 w)) = fst (new_WorkerVisitor m (worker raw) t1 w)"
  by (simp add: new_LunaVisitor_def Let_def split_beta)

lemma start_engine_safe:
  assumes "start_engine bt m w = (eng, args, w')"
  shows "\<not> ignitionOn w' \<and> pressureShutoff w' = pressureShutoff w \<and>
     commanded (calls w') MAIN_VALVE = Some LOW \<and> commanded (calls w') IGN_START = Some LOW \<and>
     (eng = Luna \<longleftrightarrow> \<not> snd (getBool (raw_bool bt ''engine_type'') m ''Main'' ''engine_type''))"
proof (cases "snd (getBool (raw_bool bt ''engine_type'') m ''Main'' ''engine_type'')")
  case True
  then show ?thesis
    using assms new_visitor_fields [of m "raw_worker bt" "raw_bool bt ''shutoff_enabled''" w]
    by (auto simp: start_engine_def new_TitanVisitor_def split_beta init_defs commanded_append
        commanded_Cons map_add_def pin_defs)
next
  case False
  then show ?thesis
    using assms new_Luna_fields [of m "raw_luna bt" "raw_bool bt ''shutoff_enabled''" "raw_bool bt ''use_gitvc''" w]
    by (auto simp: start_engine_def split_beta init_defs commanded_append
        commanded_Cons map_add_def pin_defs)
qed

lemma start_listening_running:
  assumes "start_listening bt m so open_fds w = (Running r, open_fds', w')"
  shows "\<exists>args. start_engine bt m w = (engine r, args, w') \<and> burn r = args \<and> listening (listener r) \<and>
     start_threads bt m (out_fd so) = Inr (lc_thread r, pt_thread_of r, tc_thread r)"
  using assms
  by (auto simp: start_listening_def listen_def split: sum.splits prod.splits outcome.splits if_splits)

lemma start_listening_exit:
  assumes "start_listening bt m so open_fds w = (Exit c, open_fds', w')"
  shows "c = - 1 \<and> calls w' = calls w"
  using assms
  by (auto simp: start_listening_def split: sum.splits prod.splits outcome.splits)

lemma enable_fd: "enable sockFd opt so open_fds = (Value (), so', open_fds') \<Longrightarrow> out_fd so' \<noteq> - 1"
  by (auto simp: enable_def split: if_splits)

lemma start_udp_running:
  assumes "start_udp bt m open_fds w = (Running r, open_fds', w')"
  shows "\<exists>so open_fds1 w1. start_listening bt m so open_fds1 w1 = (Running r, open_fds', w') \<and>
     calls w1 = calls w \<and> pressureShutoff w1 = pressureShutoff w \<and> adc_mutex w1 = adc_mutex w \<and> out_fd so \<noteq> - 1"
proof -
  obtain so open_fds1 lv fmt args where "start_listening bt m so open_fds1 (logger_log lv fmt args w) = (Running r, open_fds', w')"
    and "out_fd so \<noteq> - 1"
    using assms by (auto simp: start_udp_def Let_def dest: enable_fd split: prod.splits outcome.splits if_splits)
  then show ?thesis
    by (intro exI [of _ so] exI [of _ open_fds1] exI [of _ "logger_log lv fmt args w"]) simp
qed

lemma start_udp_exit:
  assumes "start_udp bt m open_fds w = (Exit c, open_fds', w')"
  shows "c = - 1 \<and> calls w' = calls w"
  using assms
  by (auto simp: start_udp_def Let_def dest!: start_listening_exit split: prod.splits outcome.splits if_splits)

lemma initialized_mutex:
  "adc_mutex (snd (initialize_spi w)) = adc_mutex w" "adc_mutex (initialize_pins w) = adc_mutex w"
  "adc_mutex (titan_initialize_pins w) = adc_mutex w"
  by (simp_all add: init_defs initialize_spi_def)

lemma new_visitor_mutex:
  "adc_mutex (snd (new_WorkerVisitor m raw tmp w)) = adc_mutex w"
  "adc_mutex (snd (new_LunaVisitor m raw2 t1 t2 w)) = adc_mutex w"
proof -
  have fold: "adc_mutex (fold (\<lambda>x. logger_log lv fmt (f x)) xs w) = adc_mutex w" for lv fmt f w and xs :: "'a list"
    by (induction xs arbitrary: w) simp_all
  show "adc_mutex (snd (new_WorkerVisitor m raw tmp w)) = adc_mutex w" for raw tmp w
    by (simp add: new_WorkerVisitor_def Let_def)
  then show "adc_mutex (snd (new_LunaVisitor m raw2 t1 t2 w)) = adc_mutex w"
    by (auto simp: new_LunaVisitor_def Let_def split_beta fold)
qed

text \<open>What is established when main reaches its serving loop.\<close>

lemma main_start_running:
  assumes "main_start bt w = (Running r, open_fds, w')"
  obtains m and so :: OutSocket and w2 args where "readFrom (config_file bt) = Some (Inr (0, m))"
    and "start_engine bt m w2 = (engine r, args, w')" and "burn r = args" and "listening (listener r)"
    and "start_threads bt m (out_fd so) = Inr (lc_thread r, pt_thread_of r, tc_thread r)"
    and "\<not> pressureShutoff w2" and "adc_mutex w2 = adc_mutex w" and "out_fd so \<noteq> - 1"
proof -
  obtain m w1 where m: "readFrom (config_file bt) = Some (Inr (0, m))"
    and udp: "start_udp bt m [] w1 = (Running r, open_fds, w')" and w1: "\<not> pressureShutoff w1" "adc_mutex w1 = adc_mutex w"
    using assms initialized_mutex(1) [of w]
    by (auto simp: main_start_def initialize_spi_def split: if_splits option.splits sum.splits)
  obtain so open_fds1 w2 where listen: "start_listening bt m so open_fds1 w2 = (Running r, open_fds, w')"
    and w2: "pressureShutoff w2 = pressureShutoff w1" "adc_mutex w2 = adc_mutex w1" "out_fd so \<noteq> - 1"
    using start_udp_running [OF udp] by blast
  obtain args where "start_engine bt m w2 = (engine r, args, w')" "burn r = args" "listening (listener r)"
    "start_threads bt m (out_fd so) = Inr (lc_thread r, pt_thread_of r, tc_thread r)"
    using start_listening_running [OF listen] by blast
  then show ?thesis using m w1 w2 by (intro that [of m w2 args so]) simp_all
qed


definition boot_config :: "config_section list" where
  "boot_config =
    [(''Main'', [(''engine_type'', ''0'')]),
     (''Network'', [(''address'', ''10.0.0.2''), (''port'', ''1234'')])]"

definition sample_boot :: boot where
  "sample_boot =
    \<lparr>has_argument = True, config_file = Some (print_config boot_config), bcm2835_init_ok = True,
     aton = (\<lambda>_. Some 167772162), dest_names = None, udp_socket = 3, udp_option = 0, tcp_socket = 4,
     tcp_option = 0, tcp_bind = 0, tcp_listen = 0, boot_atof = (\<lambda>_. 0), boot_rounding = (\<lambda>x. x),
     ring_memory = (\<lambda>_. replicate 16 blank_item), raw_address = replicate 16 NUL, raw_port = 0,
     raw_bool = (\<lambda>_. 0),
     raw_luna = \<lparr>worker = \<lparr>preignite_ms = 0, hotflow_ms = 0, pressureshutoff_ms = 0, enableShutoff = False\<rparr>,
       gitvc_on = False, use_gitvc = False, gitvc_count = 0, time_between_gitvc_ms = 0,
       gitvc_wait_time_ms = 0, gitvc_times_ms = []\<rparr>,
     raw_worker = \<lparr>preignite_ms = 0, hotflow_ms = 0, pressureshutoff_ms = 0, enableShutoff = False\<rparr>\<rparr>"

lemma boot_config_ok: "config_ok boot_config"
  by (simp add: boot_config_def config_ok_def section_name_ok_def key_ok_def value_ok_def
      MAX_CONFIG_LENGTH_def newline_def NUL_def is_space_def)

lemma threads_start:
  "\<exists>lc pt tc. start_threads bt m fd = Inr (lc, pt, tc)"
proof -
  have "NUM_SENSORS \<notin> set lcs" "NUM_SENSORS \<notin> set pts" "NUM_SENSORS \<notin> set tcs"
    by (simp_all add: lcs_def pts_def tcs_def)
  then obtain r1 r2 r3 where "register_sensors lcs new_adc_reader = Inr r1"
    "register_sensors pts new_adc_reader = Inr r2" "register_sensors tcs new_adc_reader = Inr r3"
    using register_sensors_all by metis
  then show ?thesis
    by (simp add: start_threads_def new_PeriodicThread_def split_beta Let_def)
qed

lemma listening_starts:
  assumes "tcp_socket bt = 4" and "tcp_option bt = 0" and "tcp_bind bt = 0" and "tcp_listen bt = 0"
  shows "\<exists>r open_fds' w'. start_listening bt m so open_fds w = (Running r, open_fds', w')"
proof -
  obtain lc pt tc where "start_threads bt m (out_fd so) = Inr (lc, pt, tc)" using threads_start by blast
  moreover obtain eng args w1 where "start_engine bt m w = (eng, args, w1)" by (metis prod_cases3)
  ultimately show ?thesis
    using assms by (simp add: start_listening_def new_ListenSocket_def listen_def)
qed

text \<open>The same boot with another configuration file and other ring memory.\<close>

definition boot_with :: "config_section list \<Rightarrow> (SENSOR \<Rightarrow> data_item list) \<Rightarrow> boot" where
  "boot_with cfg mem = sample_boot\<lparr>config_file := Some (print_config cfg), ring_memory := mem\<rparr>"

lemma boot_with_runs:
  assumes "config_ok cfg"
    and "map snd (filter (\<lambda>p. fst p = (''Network'', ''address'')) (pairs_of cfg)) = [''10.0.0.2'']"
  shows "\<exists>r open_fds w'. main_start (boot_with cfg mem) idle_world = (Running r, open_fds, w')"
proof -
  obtain m where m: "readFrom (Some (print_config cfg)) = Some (Inr (0, m))" "config_wf m"
    and vals: "\<And>sec key. values_of m (sec, key) = map snd (filter (\<lambda>p. fst p = (sec, key)) (pairs_of cfg))"
    using read_printed [OF assms(1)] by metis
  have "values_of m (''Network'', ''address'') = [''10.0.0.2'']"
    by (simp add: vals assms(2))
  then have "first_value m ''Network'' ''address'' = ''10.0.0.2''" "isPresent (Some ''Network'') (Some ''address'') m"
    using m(2) by (auto simp: values_of_def first_value_def isPresent_section split: option.splits)
  then have addr: "NUL \<in> set (snd (getString m ''Network'' ''address'' raw 16))" for raw
    by (simp add: getString_def strncpy_def)
  let ?w = "snd (initialize_spi idle_world)\<lparr>ignitionOn := False, pressureShutoff := False\<rparr>"
  have "\<exists>r open_fds w'. start_udp (boot_with cfg mem) m [] ?w = (Running r, open_fds, w')"
    using addr listening_starts [of "boot_with cfg mem"]
    by (simp add: start_udp_def Let_def setDest_def enable_def boot_with_def sample_boot_def)
  then show ?thesis
    using m(1) by (auto simp: main_start_def boot_with_def sample_boot_def initialize_spi_def)
qed

lemma sample_boot_runs: "\<exists>r open_fds w'. main_start sample_boot idle_world = (Running r, open_fds, w')"
proof -
  have "boot_with boot_config (\<lambda>_. replicate 16 blank_item) = sample_boot"
    by (simp add: boot_with_def sample_boot_def)
  then show ?thesis
    using boot_with_runs [OF boot_config_ok, of "\<lambda>_. replicate 16 blank_item"]
    by (simp add: boot_config_def pairs_of_def)
qed


section \<open>Descriptors\<close>

lemma recvByte_fd: "recvByte rs so = Some (r, so1, rs1) \<Longrightarrow> conn_fd so1 = conn_fd so"
  by (auto simp: recvByte_def recvBuf_def split: if_splits option.splits outcome.splits)

lemma command_loop_fd: "command_loop visit rs so w = (st, so', w') \<Longrightarrow> conn_fd so' = conn_fd so"
proof (induction visit rs so w rule: command_loop.induct)
  case (1 visit rs so w)
  show ?case
  proof (cases "recvByte rs so")
    case None
    then show ?thesis using "1.prems" by (subst (asm) command_loop.simps) auto
  next
    case (Some x)
    obtain r so1 rs1 where x: "recvByte rs so = Some (r, so1, rs1)" using Some by (cases x) auto
    note fd = recvByte_fd [OF x]
    show ?thesis
    proof (cases "\<exists>b. r = Value b \<and> b \<noteq> 48")
      case True
      then obtain b where b: "r = Value b" "b \<noteq> 48" by blast
      then have "command_loop visit rs1 so1 (visit (COMMAND_of b) (logger_log INFO ''Received command: (%d)\<newline>'' [Num (unat b)] w)) = (st, so', w')"
        using "1.prems" x by (subst (asm) command_loop.simps) simp
      then have "conn_fd so' = conn_fd so1" using "1.IH" x b by blast
      then show ?thesis using fd by simp
    next
      case False
      then show ?thesis
        using "1.prems" x fd
        by (subst (asm) command_loop.simps) (auto split: outcome.splits net_exception.splits if_splits)
    qed
  qed
qed

lemma recvByte_short:
  assumes "conn_open so" and "\<forall>bs. Received bs \<in> set rs \<longrightarrow> length bs \<le> 1"
    and "recvByte rs so = Some (r, so1, rs1)"
  shows "(\<exists>b. r = Value b \<and> conn_open so1 \<and> set rs1 \<subseteq> set rs) \<or>
     r = Throws ClientDisconnectException \<or> r = Throws OpFailureException"
proof (cases rs)
  case Nil
  then show ?thesis using assms by (simp add: recvByte_def recvBuf_def)
next
  case (Cons x xs)
  show ?thesis
  proof (cases x)
    case (Received bs)
    then have "length bs \<le> 1" using assms(2) Cons by simp
    then consider "bs = []" | b where "bs = [b]" by (cases bs) auto
    then show ?thesis
      using assms(1,3) Cons Received by cases (cases xs; auto simp: recvByte_def recvBuf_def)+
  qed (use assms(1,3) Cons in \<open>auto simp: recvByte_def recvBuf_def\<close>)
qed

lemma command_loop_not_aborted:
  "command_loop visit rs so w = (st, so', w') \<Longrightarrow> conn_open so \<Longrightarrow>
   \<forall>bs. Received bs \<in> set rs \<longrightarrow> length bs \<le> 1 \<Longrightarrow> st \<noteq> Aborted"
proof (induction visit rs so w rule: command_loop.induct)
  case (1 visit rs so w)
  show ?case
  proof (cases "recvByte rs so")
    case None
    then show ?thesis using "1.prems"(1) by (subst (asm) command_loop.simps) auto
  next
    case (Some x)
    obtain r so1 rs1 where x: "recvByte rs so = Some (r, so1, rs1)" using Some by (cases x) auto
    from recvByte_short [OF "1.prems"(2,3) x] show ?thesis
    proof (elim disjE exE conjE)
      fix b
      assume b: "r = Value b" "conn_open so1" "set rs1 \<subseteq> set rs"
      show ?thesis
      proof (cases "b = 48")
        case True
        then show ?thesis using "1.prems"(1) x b by (subst (asm) command_loop.simps) auto
      next
        case False
        then have "command_loop visit rs1 so1 (visit (COMMAND_of b) (logger_log INFO ''Received command: (%d)\<newline>'' [Num (unat b)] w)) = (st, so', w')"
          using "1.prems"(1) x b by (subst (asm) command_loop.simps) simp
        then show ?thesis using "1.IH" x b False "1.prems"(3) by blast
      qed
    qed (use "1.prems"(1) x in \<open>(subst (asm) command_loop.simps, auto)+\<close>)
  qed
qed

lemma serve_owns:
  assumes "listening li"
    and "\<forall>c \<in> set cs. \<forall>bs. Received bs \<in> set (input c) \<longrightarrow> length bs \<le> 1"
    and "serve visit cs li open_fds w = (e, open_fds', w')"
  shows "e \<in> {Accepting, Returned (- 1)} \<and> open_fds' = open_fds \<or>
     (\<exists>c \<in> set cs. open_fds' = accepted_fd c # open_fds \<and> 0 \<le> accepted_fd c \<and>
        (e = Receiving \<or> e = Terminated \<and> close_result c < 0))"
  using assms(2,3)
proof (induction cs arbitrary: w)
  case (Cons c cs)
  show ?case
  proof (cases "accepted_fd c < 0")
    case True
    then show ?thesis using Cons.prems(2) assms(1) by (simp add: accept_def)
  next
    case False
    obtain host serv where names: "(case names c of None \<Rightarrow> (''Unknown'', ''Unknown'') | Some n \<Rightarrow> n) = (host, serv)"
      by fastforce
    let ?so = "new_ConnSocket\<lparr>conn_fd := accepted_fd c, conn_open := True, clientHost := host, clientServ := serv\<rparr>"
    have acc: "accept (accepted_fd c) (names c) li open_fds = (Value ?so, accepted_fd c # open_fds)"
      using False assms(1) names by (simp add: accept_def)
    obtain st so' w1 where loop: "command_loop visit (input c) ?so
        (logger_log INFO ''Connected to client: %s\<newline>'' [Str (clientHost ?so)] w) = (st, so', w1)"
      by (metis prod_cases3)
    have fd: "conn_fd so' = accepted_fd c" using command_loop_fd [OF loop] by simp
    have na: "st \<noteq> Aborted" using command_loop_not_aborted [OF loop] Cons.prems(1) by simp
    show ?thesis
    proof (cases "st = Blocked")
      case True
      then show ?thesis using Cons.prems(2) acc loop False by simp
    next
      case live: False
      show ?thesis
      proof (cases "close_result c < 0")
        case True
        then show ?thesis
          using Cons.prems(2) acc loop live na fd False by (cases st) (simp_all add: conn_close_def Let_def)
      next
        case closed: False
        then have "serve visit cs li open_fds w1 = (e, open_fds', w')"
          using Cons.prems(2) acc loop live na fd False by (cases st) (simp_all add: conn_close_def Let_def)
        then show ?thesis using Cons.IH Cons.prems(1) by auto
      qed
    qed
  qed
qed simp

lemma start_listening_fds:
  assumes "start_listening bt m so open_fds w = (Running r, open_fds', w')"
  shows "open_fds' = listen_fd (listener r) # open_fds \<and> udp r = so"
  using assms
  by (auto simp: start_listening_def listen_def new_ListenSocket_def split: sum.splits prod.splits if_splits)

lemma enable_fds:
  "enable sockFd opt so open_fds = (Value (), so', open_fds') \<Longrightarrow> open_fds' = out_fd so' # open_fds"
  by (auto simp: enable_def split: if_splits)

lemma main_start_fds:
  assumes "main_start bt w = (Running r, open_fds, w')"
  shows "open_fds = [listen_fd (listener r), out_fd (udp r)]"
proof -
  obtain m w1 where "start_udp bt m [] w1 = (Running r, open_fds, w')"
    using assms by (auto simp: main_start_def initialize_spi_def split: if_splits option.splits sum.splits)
  then obtain so so1 open_fds1 w2 where "enable (udp_socket bt) (udp_option bt) so [] = (Value (), so1, open_fds1)"
    "start_listening bt m so1 open_fds1 w2 = (Running r, open_fds, w')"
    by (auto simp: start_udp_def Let_def split: prod.splits outcome.splits if_splits)
  then show ?thesis
    using start_listening_fds [of bt m so1 open_fds1 w2] enable_fds by fastforce
qed

text \<open>C25: from its start on, whatever its clients send and however their calls end, main holds
  exactly the descriptors of its two sockets while it waits for a client, and one more, that
  of the client, while it waits for input; the only other ends of the loop are the return
  of -1 after a failed \<open>accept\<close>, with the two, and the exception of a failed \<open>close\<close>, with the
  client's descriptor still open.\<close>

theorem main_owns_descriptors:
  assumes "main_start bt w = (Running r, open_fds, w')"
    and "\<forall>c \<in> set cs. \<forall>bs. Received bs \<in> set (input c) \<longrightarrow> length bs \<le> 1"
    and "serve visit cs (listener r) open_fds w' = (e, open_fds', w'')"
  shows "let own = [listen_fd (listener r), out_fd (udp r)] in
     e \<in> {Accepting, Returned (- 1)} \<and> open_fds' = own \<or>
     (\<exists>c \<in> set cs. open_fds' = accepted_fd c # own \<and> 0 \<le> accepted_fd c \<and>
        (e = Receiving \<or> e = Terminated \<and> close_result c < 0))"
proof -
  have "listening (listener r)" by (rule main_start_running [OF assms(1)])
  then show ?thesis
    using serve_owns [OF _ assms(2,3)] main_start_fds [OF assms(1)] by (simp add: Let_def)
qed

theorem main_owns_descriptors_witness:
  "\<exists>r open_fds w' open_fds' w''. main_start sample_boot idle_world = (Running r, open_fds, w') \<and>
     serve Luna_visitCommand [\<lparr>accepted_fd = 9, names = None, input = [Received [3]], close_result = 0\<rparr>]
       (listener r) open_fds w' = (Receiving, open_fds', w'') \<and>
     open_fds' = [9, listen_fd (listener r), out_fd (udp r)]"
proof -
  let ?c = "\<lparr>accepted_fd = 9, names = None, input = [Received [3]], close_result = 0\<rparr>"
  obtain r open_fds w' where start: "main_start sample_boot idle_world = (Running r, open_fds, w')"
    using sample_boot_runs by blast
  have li: "listening (listener r)" by (rule main_start_running [OF start])
  let ?so = "new_ConnSocket\<lparr>conn_fd := 9, conn_open := True, clientHost := ''Unknown'', clientServ := ''Unknown''\<rparr>"
  have "recvByte [] ?so = None" by (simp add: recvByte_def recvBuf_def)
  then have "fst (command_loop Luna_visitCommand [] ?so v) = Blocked" for v
    by (subst command_loop.simps) simp
  then have "fst (command_loop Luna_visitCommand [Received [3]] ?so v) = Blocked" for v
    using command_loop_bytes [of ?so "[3]" Luna_visitCommand "[]" v] by simp
  then obtain so' w'' where loop: "command_loop Luna_visitCommand [Received [3]] ?so
      (logger_log INFO ''Connected to client: %s\<newline>'' [Str ''Unknown''] w') = (Blocked, so', w'')"
    by (metis prod.collapse)
  have "accept 9 None (listener r) open_fds = (Value ?so, 9 # open_fds)" using li by (simp add: accept_def)
  then have run: "serve Luna_visitCommand [?c] (listener r) open_fds w' = (Receiving, 9 # open_fds, w'')"
    using loop by simp
  have short: "\<forall>c \<in> set [?c]. \<forall>bs. Received bs \<in> set (input c) \<longrightarrow> length bs \<le> 1" by simp
  have "9 # open_fds = [9, listen_fd (listener r), out_fd (udp r)]"
    using main_owns_descriptors [OF start short run] by (simp add: Let_def)
  then show ?thesis using start run by blast
qed

section \<open>Early exits and the pressure limits\<close>

text \<open>Main returns early only with 1 or -1, and then it has driven no pin.\<close>

lemma early_exit_drives_nothing:
  assumes "main_start bt w = (Exit c, open_fds, w')"
  shows "c \<in> {1, - 1} \<and> (\<forall>p. commanded (drop (length (calls w)) (calls w')) p = None)"
proof -
  have spi: "commanded (drop (length (calls w)) (calls (snd (initialize_spi w)))) p = None" for p
    by (simp add: initialize_spi_def commanded_Cons)
  show ?thesis
    using assms spi
    by (auto simp: main_start_def initialize_spi_def commanded_Cons dest!: start_udp_exit
        split: if_splits option.splits sum.splits)
qed

lemma early_exit_drives_nothing_witness:
  "main_start (sample_boot\<lparr>config_file := None\<rparr>) idle_world = (Exit 1, [], idle_world) \<and>
   (\<forall>p. commanded (drop 0 (calls idle_world)) p = None)"
proof -
  have "main_start (sample_boot\<lparr>config_file := None\<rparr>) idle_world = (Exit 1, [], idle_world)"
    by (simp add: main_start_def sample_boot_def readFrom_def)
  from early_exit_drives_nothing [OF this] this show ?thesis by (simp add: idle_world_def)
qed

text \<open>C29: each pressure limit is the value of the file if the file has one and its default
  otherwise, independently of the others; main prints its warning about using defaults
  exactly when at least one is missing.\<close>

theorem pressure_limits:
  assumes "config_wf m"
  shows "let pick = (\<lambda>key d. case values_of m (''Pressure'', key) of [] \<Rightarrow> d | v # _ \<Rightarrow> atof v);
      (readAll, pmax, pmin, slope, yint) = pressure_config atof m in
     pmax = pick ''pressure_max'' 800 \<and> pmin = pick ''pressure_min'' 300 \<and>
     slope = pick ''pressure_slope'' (- 3 / 10) \<and> yint = pick ''pressure_yint'' (11081 / 10) \<and>
     (readAll = 0 \<longleftrightarrow> (\<forall>key \<in> {''pressure_max'', ''pressure_min'', ''pressure_slope'', ''pressure_yint''}.
        values_of m (''Pressure'', key) \<noteq> []))"
proof -
  have "getDouble atof m ''Pressure'' key d =
      (case values_of m (''Pressure'', key) of [] \<Rightarrow> (1, d) | v # _ \<Rightarrow> (0, atof v))" for key d
    using getDouble_value [OF assms] by simp
  then show ?thesis by (auto simp: pressure_config_def Let_def split: list.splits)
qed

theorem pressure_limits_witness:
  "let (readAll, pmax, pmin, slope, yint) =
      pressure_config (\<lambda>_. 900) (push_value ''Pressure'' ''pressure_max'' ''900'' Map.empty) in
   pmax = 900 \<and> pmin = 300 \<and> readAll \<noteq> 0"
  using pressure_limits [OF config_wf_push [OF config_wf_empty], of "\<lambda>_. 900" "''Pressure''" "''pressure_max''" "''900''"]
  by (auto simp: Let_def split_beta)

text \<open>Main starts the sensor threads before it initialises the pins: a read in that time
  drives a chip select that no call has made an output, twice.\<close>

lemma reads_before_pin_initialisation:
  assumes "registered infos s" and "\<not> adc_mutex w" and "calls w = []"
    and "read_item cs spi infos (sensor_code s) (snd (initialize_spi w)) = Inr (r, w')"
  shows "unconfigured_writes [] (calls w') = [cs_pin (sensor_info s), cs_pin (sensor_info s)]"
proof -
  let ?w = "snd (initialize_spi w)"
  have "\<not> adc_mutex ?w" using assms(2) by (simp add: initialize_spi_def)
  then have "calls w' = calls ?w @ read_calls s"
    using read_registered [OF assms(1), of ?w cs spi] assms(4) by auto
  then show ?thesis using assms(3) by (simp add: initialize_spi_def read_calls_def)
qed

lemma reads_before_pin_initialisation_witness:
  "\<exists>r w'. read_item False (\<lambda>_ _. (0, 7, 129)) full_reader (sensor_code LC1) (snd (initialize_spi idle_world)) = Inr (r, w') \<and>
     unconfigured_writes [] (calls w') = [RPI_GPIO_P1_22, RPI_GPIO_P1_22]"
proof -
  have reg: "registered full_reader LC1" by (rule full_reader_registered) simp
  have mutex: "\<not> adc_mutex (snd (initialize_spi idle_world))" by (simp add: initialize_spi_def idle_world_def)
  obtain r w' where run: "read_item False (\<lambda>_ _. (0, 7, 129)) full_reader (sensor_code LC1)
      (snd (initialize_spi idle_world)) = Inr (r, w')"
    using read_registered [OF reg mutex] by blast
  have "cs_pin (sensor_info LC1) = RPI_GPIO_P1_22" by (simp add: sensor_info_def SENSOR_PINS_def)
  then show ?thesis
    using reads_before_pin_initialisation [OF reg _ _ run] run by (auto simp: idle_world_def)
qed

end
