(* ===== verification/Resfet_Program.thy ===== *)
theory Resfet_Program
  imports Resfet_Shutoff Resfet_Main
begin

text \<open>
  The program from its start: \<open>main\<close> of Resfet_Main up to its serving loop, and then the
  threads it has started, in any interleaving.

  The commands a client sends reach the visitor as in Resfet_Main; here a \<open>Receive\<close> turn is
  the visitor taking one of them. The sensor threads are started a few statements before
  the loop is reached; the runs of this theory begin after these, those of Resfet_Startup
  when the threads are started. The lemmas both share are about any state the runs reach:
  \<open>stop_ends\<close>, \<open>turns_closed\<close> and, on rings with enough memory, \<open>steady_overpressure\<close>.
\<close>

text \<open>The threads of the running program: \<open>raw\<close> is the uninitialised \<open>mainOpen\<close> of the monitor,
  \<open>mem\<close> the packet buffers of the sensor threads.\<close>

definition program_start :: "bool \<Rightarrow> (nat \<Rightarrow> u8 list) \<Rightarrow> running \<Rightarrow> world \<Rightarrow> stand" where
  "program_start raw mem r w =
     stand_start raw [(lc_thread r, mem 0), (pt_thread_of r, mem 1), (tc_thread r, mem 2)] w"

section \<open>What the start establishes\<close>

lemma started_threads:
  assumes "start_threads bt m fd = Inr (lc, pt, tc)"
  shows "\<forall>th \<in> {lc, pt, tc}. \<forall>cb \<in> set (buffers th). registered (reader th) (sensor cb)"
proof -
  obtain ra pmax pmin slope yint where p: "pressure_config (boot_atof bt) m = (ra, pmax, pmin, slope, yint)"
    by (metis prod_cases5)
  have new: "new_PeriodicThread (boot_rounding bt) (ring_memory bt) (frequency LC1) lcs pmax pmin slope yint (Some fd) = Inr lc"
    "new_PeriodicThread (boot_rounding bt) (ring_memory bt) (frequency PT1) pts pmax pmin slope yint (Some fd) = Inr pt"
    "new_PeriodicThread (boot_rounding bt) (ring_memory bt) (frequency TC1) tcs pmax pmin slope yint (Some fd) = Inr tc"
    using assms p by (auto simp: start_threads_def Let_def split: sum.splits)
  have "NUM_SENSORS \<notin> set lcs" "NUM_SENSORS \<notin> set pts" "NUM_SENSORS \<notin> set tcs"
    by (simp_all add: lcs_def pts_def tcs_def)
  then show ?thesis
    using new [THEN constructed_registered] by blast
qed

lemma program_facts:
  assumes "main_start bt w = (Running r, open_fds, w')" and "\<not> adc_mutex w"
  shows "wired (program_start raw mem r w')" and "not_high w' MAIN_VALVE" and "not_high w' IGN_START"
    and "view_stand (program_start raw mem r w') = started raw (view w')"
proof -
  obtain m and so :: OutSocket and w2 args where start: "start_engine bt m w2 = (engine r, args, w')"
    "start_threads bt m (out_fd so) = Inr (lc_thread r, pt_thread_of r, tc_thread r)"
    "adc_mutex w2 = adc_mutex w"
    by (rule main_start_running [OF assms(1)]) (rule that)
  have "adc_mutex w' = adc_mutex w2"
    using start(1) new_visitor_mutex initialized_mutex
    by (auto simp: start_engine_def new_TitanVisitor_def split: prod.splits if_splits) (metis snd_conv)+
  then have "\<not> adc_mutex w'" using start(3) assms(2) by simp
  then show "wired (program_start raw mem r w')"
    unfolding program_start_def using started_threads [OF start(2)] by (intro wired_start) auto
  show "not_high w' MAIN_VALVE" "not_high w' IGN_START" using start_engine_safe [OF start(1)] by simp_all
  show "view_stand (program_start raw mem r w') = started raw (view w')"
    unfolding program_start_def by (rule view_start)
qed

lemma main_start_ignition:
  assumes "main_start bt w = (Running r, open_fds, w')"
  shows "\<not> ignitionOn w'"
proof -
  obtain m w2 args where "start_engine bt m w2 = (engine r, args, w')"
    by (rule main_start_running [OF assms]) (rule that)
  then show ?thesis using start_engine_safe by blast
qed

lemma turns_closed:
  assumes "wired s" and "closed_inv (view_stand s)" and "take_turns cfg pf ts s = Inr s'" and "commands ts \<subseteq> monitored"
  shows "wired s'" and "closed_inv (view_stand s')"
  using turns_refine [OF assms(3,1) subset_refl] closed_inv_reaches assms(2,4) by blast+

lemma program_closed:
  assumes "main_start bt w = (Running r, open_fds, w')" and "\<not> adc_mutex w"
    and "take_turns cfg pf ts (program_start raw mem r w') = Inr s" and "commands ts \<subseteq> monitored"
  shows "wired s" and "closed_inv (view_stand s)"
proof -
  note facts = program_facts [OF assms(1,2)]
  have "closed_inv (view_stand (program_start raw mem r w'))"
    unfolding facts(4) using facts(2,3) by (intro closed_inv_started) (simp_all add: commanded_valve_calls)
  then show "wired s" "closed_inv (view_stand s)" using turns_closed [OF facts(1) _ assms(3,4)] by blast+
qed

lemma closed_safe:
  "closed_inv (view_stand s) \<Longrightarrow>
     (pc (mon s) \<in> {Entering, Polling, Beginning, Clearing} \<longrightarrow>
       not_high (shared s) MAIN_VALVE \<and> not_high (shared s) IGN_START) \<and>
     (\<not> mainOpen (mon s) \<longrightarrow> not_high (shared s) MAIN_VALVE)"
  by (auto simp: closed_inv_def idle_pcs_def view_stand_def commanded_valve_calls)

section \<open>Properties\<close>

text \<open>From its start on, and as long as the operator sends no direct main-valve or igniter
  command, the program never has the main valve or the igniter driven high while no burn is
  in progress, nor the main valve before the monitor has opened it: for every configuration
  file and every interleaving of the monitor, the commands and the three sensor threads, up
  to the point where one of those leaves its memory.\<close>

lemma program_keeps_valves_closed:
  assumes "main_start bt w = (Running r, open_fds, w')" and "\<not> adc_mutex w"
    and "take_turns (burn r) pf ts (program_start raw mem r w') = Inr s" and "commands ts \<subseteq> monitored"
  shows "(pc (mon s) \<in> {Entering, Polling, Beginning, Clearing} \<longrightarrow>
       not_high (shared s) MAIN_VALVE \<and> not_high (shared s) IGN_START) \<and>
     (\<not> mainOpen (mon s) \<longrightarrow> not_high (shared s) MAIN_VALVE)"
  using closed_safe [OF program_closed(2) [OF assms]] .

lemma take_turns_no_pass: "\<forall>k. Pass k \<notin> set ts \<Longrightarrow> \<exists>s'. take_turns cfg pf ts s = Inr s'"
proof (induction ts arbitrary: s)
  case (Cons t ts)
  have "\<exists>s1. take_turn cfg pf t s = Inr s1"
    using Cons.prems by (cases t) (auto simp: split_beta simp del: monitor_step.simps)
  then obtain s1 where "take_turn cfg pf t s = Inr s1" by blast
  then show ?case using Cons.IH [of s1] Cons.prems by simp
qed simp

lemma sample_program_runs:
  assumes "\<forall>k. Pass k \<notin> set ts"
  shows "\<exists>r open_fds w' s. main_start sample_boot idle_world = (Running r, open_fds, w') \<and>
     take_turns (burn r) plain_platform ts (program_start raw mem r w') = Inr s"
  using sample_boot_runs take_turns_no_pass [OF assms] by metis

lemma program_keeps_valves_closed_witness:
  "\<exists>r open_fds w' s. main_start sample_boot idle_world = (Running r, open_fds, w') \<and>
     take_turns (burn r) plain_platform [Receive START_IGNITION, Act, Act, Act, Monitor_turn 5, Monitor_turn 5]
       (program_start True (\<lambda>_. replicate 260 0) r w') = Inr s \<and>
     (\<not> mainOpen (mon s) \<longrightarrow> not_high (shared s) MAIN_VALVE)"
proof -
  let ?ts = "[Receive START_IGNITION, Act, Act, Act, Monitor_turn 5, Monitor_turn 5]"
  have no_pass: "\<forall>k. Pass k \<notin> set ?ts" by simp
  obtain r open_fds w' s where start: "main_start sample_boot idle_world = (Running r, open_fds, w')"
    and run: "take_turns (burn r) plain_platform ?ts (program_start True (\<lambda>_. replicate 260 0) r w') = Inr s"
    using sample_program_runs [OF no_pass] by blast
  have "\<not> adc_mutex idle_world" "commands ?ts \<subseteq> monitored" by (simp_all add: idle_world_def monitored_def)
  then show ?thesis using program_keeps_valves_closed [OF start _ run] start run by blast
qed

section \<open>A stop in the running program\<close>

text \<open>The ignition flag stays off as long as no START_IGNITION is taken.\<close>

fun keeps_off :: "action \<Rightarrow> bool" where
  "keeps_off (Set_ignition b) = (\<not> b)"
| "keeps_off _ = True"

lemma keeps_off_commands: "c \<noteq> START_IGNITION \<Longrightarrow> a \<in> set (command_actions c) \<Longrightarrow> keeps_off a"
  by (cases c) (auto simp: command_actions_def drive_actions_def)

lemma keeps_off_action: "keeps_off a \<Longrightarrow> \<not> ignitionOn w \<Longrightarrow> \<not> ignitionOn (do_action a w)"
  by (cases a) simp_all

definition stopped :: "stand \<Rightarrow> bool" where
  "stopped s \<longleftrightarrow> wired s \<and> \<not> ignitionOn (shared s) \<and> (\<forall>a \<in> set (todo s). keeps_off a)"

lemma stopped_turn:
  assumes "stopped s" and "take_turn cfg pf t s = Inr s'" and "START_IGNITION \<notin> commands [t]"
  shows "stopped s' \<and> steps_to_wait (pc (mon s')) \<le> steps_to_wait (pc (mon s)) - monitor_turns [t]"
proof -
  have wired: "wired s'" using turn_refines [OF assms(2) _ subset_refl] assms(1) by (simp add: stopped_def)
  show ?thesis
  proof (cases t)
    case (Monitor_turn now)
    have "\<not> ignitionOn (shared s)" using assms(1) by (simp add: stopped_def)
    from off_step [OF this, of cfg now "mon s"] show ?thesis
      using assms(1,2) wired Monitor_turn by (auto simp: stopped_def split: prod.splits simp del: monitor_step.simps)
  next
    case (Receive c)
    then show ?thesis using assms wired keeps_off_commands [of c] by (auto simp: stopped_def split: if_splits)
  next
    case Act
    then show ?thesis
      using assms(1,2) wired keeps_off_action by (cases "todo s") (auto simp: stopped_def)
  next
    case (Pass k)
    show ?thesis
    proof (cases "k < length (threads s)")
      case True
      then obtain r w where pass: "thread_pass pf (threads s ! k) (shared s) = Inr (r, w)"
        and s': "s' = s\<lparr>threads := (threads s)[k := r], shared := w\<rparr>"
        using assms(2) Pass by (auto split: sum.splits)
      have "connected (threads s ! k)" "\<not> adc_mutex (shared s)"
        using assms(1) True by (simp_all add: stopped_def wired_def)
      from thread_pass_world [OF pass this] have "ignitionOn w = ignitionOn (shared s)" by auto
      then show ?thesis using assms(1) wired s' Pass by (simp add: stopped_def)
    qed (use assms Pass in simp)
  qed
qed

lemma stopped_turns:
  "stopped s \<Longrightarrow> take_turns cfg pf ts s = Inr s' \<Longrightarrow> START_IGNITION \<notin> commands ts \<Longrightarrow>
   stopped s' \<and> steps_to_wait (pc (mon s')) \<le> steps_to_wait (pc (mon s)) - monitor_turns ts"
proof (induction ts arbitrary: s)
  case (Cons t ts)
  obtain s1 where one: "take_turn cfg pf t s = Inr s1" "take_turns cfg pf ts s1 = Inr s'"
    using Cons.prems(2) by (auto split: sum.splits)
  have parts: "START_IGNITION \<notin> commands [t]" "START_IGNITION \<notin> commands ts"
    "monitor_turns (t # ts) = monitor_turns [t] + monitor_turns ts"
    using Cons.prems(3) by (cases t; simp)+
  have s1: "stopped s1 \<and> steps_to_wait (pc (mon s1)) \<le> steps_to_wait (pc (mon s)) - monitor_turns [t]"
    by (rule stopped_turn [OF Cons.prems(1) one(1) parts(1)])
  then have "stopped s' \<and> steps_to_wait (pc (mon s')) \<le> steps_to_wait (pc (mon s1)) - monitor_turns ts"
    using Cons.IH [OF _ one(2) parts(2)] by blast
  then show ?case using s1 parts(3) by linarith
qed simp

lemma commands_append: "commands (ts @ us) = commands ts \<union> commands us"
  by (induction ts rule: commands.induct) auto

lemma stop_ends:
  assumes "wired s" and "closed_inv (view_stand s)" and "\<not> ignitionOn (shared s)" and "todo s = []"
    and "take_turns cfg pf us s = Inr s'" and "commands us \<subseteq> monitored - {START_IGNITION}" and "10 \<le> monitor_turns us"
  shows "pc (mon s') = Polling \<and> \<not> ignitionOn (shared s') \<and>
     not_high (shared s') MAIN_VALVE \<and> not_high (shared s') IGN_START"
proof -
  have "stopped s" using assms(1,3,4) by (simp add: stopped_def)
  then have "stopped s'" "steps_to_wait (pc (mon s')) \<le> steps_to_wait (pc (mon s)) - monitor_turns us"
    using stopped_turns [OF _ assms(5)] assms(6) by blast+
  then have off: "\<not> ignitionOn (shared s')" "steps_to_wait (pc (mon s')) = 0"
    using steps_to_wait_bound [of "pc (mon s)"] assms(7) by (auto simp: stopped_def)
  then have "pc (mon s') = Polling" by (cases "pc (mon s')") simp_all
  moreover have "closed_inv (view_stand s')"
    using turns_closed(2) [OF assms(1,2,5)] assms(6) by blast
  ultimately show ?thesis using off(1) closed_safe [of s'] by simp
qed

text \<open>At whatever point of its run the ignition flag of the program is off and the command thread
  idle, as after a STOP_IGNITION, every continuation without a START_IGNITION or a direct
  main-valve or igniter command in which the monitor takes ten turns ends with the monitor
  waiting, the ignition flag off, and neither the main valve nor the igniter driven high,
  whatever the sensor threads and the other commands do and whatever the clock says.\<close>

lemma program_stop_ends_burn:
  assumes "main_start bt w = (Running r, open_fds, w')" and "\<not> adc_mutex w"
    and "take_turns (burn r) pf ts (program_start raw mem r w') = Inr s" and "commands ts \<subseteq> monitored"
    and "\<not> ignitionOn (shared s)" and "todo s = []"
    and "take_turns (burn r) pf us s = Inr s'" and "commands us \<subseteq> monitored - {START_IGNITION}"
    and "10 \<le> monitor_turns us"
  shows "pc (mon s') = Polling \<and> \<not> ignitionOn (shared s') \<and>
     not_high (shared s') MAIN_VALVE \<and> not_high (shared s') IGN_START"
  using stop_ends [OF program_closed [OF assms(1-4)] assms(5-9)] .

lemma program_stop_ends_burn_witness:
  "\<exists>r open_fds w' s s'. main_start sample_boot idle_world = (Running r, open_fds, w') \<and>
     take_turns (burn r) plain_platform [Monitor_turn 5] (program_start True (\<lambda>_. replicate 260 0) r w') = Inr s \<and>
     take_turns (burn r) plain_platform (Receive SET_DRIVER2 # Act # replicate 10 (Monitor_turn 9)) s = Inr s' \<and>
     pc (mon s') = Polling \<and> not_high (shared s') IGN_START"
proof -
  let ?ts = "[Monitor_turn 5]" and ?us = "Receive SET_DRIVER2 # Act # replicate 10 (Monitor_turn 9)"
  have no_pass: "\<forall>k. Pass k \<notin> set ?ts" "\<forall>k. Pass k \<notin> set ?us" by simp_all
  obtain r open_fds w' s where start: "main_start sample_boot idle_world = (Running r, open_fds, w')"
    and run: "take_turns (burn r) plain_platform ?ts (program_start True (\<lambda>_. replicate 260 0) r w') = Inr s"
    using sample_program_runs [OF no_pass(1)] by blast
  obtain s' where on: "take_turns (burn r) plain_platform ?us s = Inr s'" using take_turns_no_pass [OF no_pass(2)] by blast
  have "\<not> ignitionOn w'"
    using main_start_ignition [OF start] .
  then have "\<not> ignitionOn (shared s)" "todo s = []"
    using run by (auto simp: program_start_def stand_start_def monitor_start_def)
  moreover have "\<not> adc_mutex idle_world" "commands ?ts \<subseteq> monitored" "commands ?us \<subseteq> monitored - {START_IGNITION}"
    "10 \<le> monitor_turns ?us"
    by (simp_all add: idle_world_def monitored_def numeral_eq_Suc)
  ultimately show ?thesis
    using program_stop_ends_burn [OF start _ run _ _ _ on] start run on by blast
qed

section \<open>The running program on rings with enough memory\<close>

text \<open>What the three threads are at the start: their sensors, their limits and their sockets. With one
  item more than the 16 that the rings allocate, and the packet buffers of the threads, they are
  on enough memory.\<close>

lemma start_threads_new:
  assumes "start_threads bt m fd = Inr (lc, pt, tc)"
  obtains pmax pmin slope yint where "pressure_config (boot_atof bt) m = (fst (pressure_config (boot_atof bt) m), pmax, pmin, slope, yint)"
    and "new_PeriodicThread (boot_rounding bt) (ring_memory bt) (frequency LC1) lcs pmax pmin slope yint (Some fd) = Inr lc"
    and "new_PeriodicThread (boot_rounding bt) (ring_memory bt) (frequency PT1) pts pmax pmin slope yint (Some fd) = Inr pt"
    and "new_PeriodicThread (boot_rounding bt) (ring_memory bt) (frequency TC1) tcs pmax pmin slope yint (Some fd) = Inr tc"
proof -
  obtain ra pmax pmin slope yint where p: "pressure_config (boot_atof bt) m = (ra, pmax, pmin, slope, yint)"
    by (metis prod_cases5)
  then show ?thesis
    using assms by (intro that [of pmax pmin slope yint]) (auto simp: start_threads_def Let_def split: sum.splits)
qed

definition launched :: "(nat \<Rightarrow> u8 list) \<Rightarrow> running \<Rightarrow> sensor_thread list" where
  "launched mem r = [launch (lc_thread r) (mem 0), launch (pt_thread_of r) (mem 1), launch (tc_thread r) (mem 2)]"

lemma program_start_fields [simp]:
  "threads (program_start raw mem r w) = launched mem r" "todo (program_start raw mem r w) = []"
  "adc_mutex (shared (program_start raw mem r w)) = adc_mutex w"
  by (simp_all add: program_start_def stand_start_def monitor_start_def launched_def)

lemma launched_sensors:
  assumes "new_PeriodicThread rnd mem freq ss pmax pmin slope yint (Some fd) = Inr th" and "NUM_SENSORS \<notin> set ss"
    and "distinct ss" and "fd \<noteq> - 1"
  shows "map sensor (rings (locals (launch th b))) = ss" and "sock th \<notin> {None, Some (- 1)}" and "pressureMax th = pmax"
  using constructed_thread [OF assms] by (simp_all add: launch_def thread_start_def thread_ready_def ring_simps comp_def)

lemma program_threads:
  assumes "main_start bt w = (Running r, open_fds, w')" and "\<forall>s. 17 \<le> length (ring_memory bt s)"
    and "\<forall>i < 3. length (mem i) = 260"
  shows "map (\<lambda>q. map sensor (rings (locals q))) (launched mem r) = [lcs, pts, tcs]"
    and "\<forall>q \<in> set (launched mem r). roomy q \<and> \<not> returned q \<and> sock (obj q) \<notin> {None, Some (- 1)}"
proof -
  obtain m and so :: OutSocket where start: "start_threads bt m (out_fd so) = Inr (lc_thread r, pt_thread_of r, tc_thread r)"
    "out_fd so \<noteq> - 1" by (rule main_start_running [OF assms(1)]) (rule that)
  obtain pmax pmin slope yint where
    new: "new_PeriodicThread (boot_rounding bt) (ring_memory bt) (frequency LC1) lcs pmax pmin slope yint (Some (out_fd so)) = Inr (lc_thread r)"
      "new_PeriodicThread (boot_rounding bt) (ring_memory bt) (frequency PT1) pts pmax pmin slope yint (Some (out_fd so)) = Inr (pt_thread_of r)"
      "new_PeriodicThread (boot_rounding bt) (ring_memory bt) (frequency TC1) tcs pmax pmin slope yint (Some (out_fd so)) = Inr (tc_thread r)"
    by (rule start_threads_new [OF start(1)]) (rule that)
  have ss: "NUM_SENSORS \<notin> set lcs" "NUM_SENSORS \<notin> set pts" "NUM_SENSORS \<notin> set tcs"
    "distinct lcs" "distinct pts" "distinct tcs" by (simp_all add: lcs_def pts_def tcs_def)
  note made = launched_sensors [OF new(1) ss(1,4) start(2)] launched_sensors [OF new(2) ss(2,5) start(2)]
    launched_sensors [OF new(3) ss(3,6) start(2)]
  show "map (\<lambda>q. map sensor (rings (locals q))) (launched mem r) = [lcs, pts, tcs]"
    using made by (simp add: launched_def)
  have "roomy (launch (lc_thread r) (mem 0))" "roomy (launch (pt_thread_of r) (mem 1))" "roomy (launch (tc_thread r) (mem 2))"
    using launch_roomy [OF new(1) ss(1)] launch_roomy [OF new(2) ss(2)] launch_roomy [OF new(3) ss(3)] assms(2,3)
    by simp_all
  then show "\<forall>q \<in> set (launched mem r). roomy q \<and> \<not> returned q \<and> sock (obj q) \<notin> {None, Some (- 1)}"
    using made start(2) by (auto simp: launched_def launch_def)
qed

lemma steady_facts:
  assumes "main_start bt w = (Running r, open_fds, w')" and "\<forall>s. 17 \<le> length (ring_memory bt s)"
    and "\<forall>i < 3. length (mem i) = 260" and "steady (launched mem r) s"
  shows "\<not> adc_mutex (shared s) \<and> map (\<lambda>q. map sensor (rings (locals q))) (threads s) = [lcs, pts, tcs] \<and>
     map obj (threads s) = [lc_thread r, pt_thread_of r, tc_thread r] \<and>
     (\<forall>q \<in> set (threads s). roomy q \<and> \<not> returned q)"
proof -
  have n: "length (threads s) = length (launched mem r)" using assms(4) by (simp add: steady_def)
  have "map (\<lambda>q. map sensor (rings (locals q))) (threads s) = map (\<lambda>q. map sensor (rings (locals q))) (launched mem r)"
    "map obj (threads s) = map obj (launched mem r)"
    using assms(4) n by (auto simp: steady_def intro: nth_equalityI)
  moreover have "\<forall>q \<in> set (threads s). roomy q \<and> \<not> returned q"
    using assms(4) by (auto simp: steady_def in_set_conv_nth)
  ultimately show ?thesis
    using assms(4) program_threads(1) [OF assms(1-3)] by (simp add: launched_def launch_def steady_def)
qed

text \<open>A burn in progress when PT1 starts to read at least \<open>c\<close>, above the limit: \<open>n + 1\<close> rounds of the
  transducer thread, four passes each, let the weight of the old average fade.\<close>

lemma steady_overpressure:
  assumes "main_start bt w = (Running r, open_fds, w')" and "\<forall>s. 17 \<le> length (ring_memory bt s)"
    and "\<forall>i < 3. length (mem i) = 260" and "steady (launched mem r) s" and "rounding pf = (\<lambda>x. x)"
    and "pc (mon s) \<in> {Testing, Opening, Checking, Stopping, Sleeping}" and "\<forall>a \<in> set (todo s). sets_no_shutoff a"
    and "pressureMax (pt_thread_of r) < c"
    and "\<forall>cs. c \<le> calibrated (pt_thread_of r) (fst (sampled pf PT1 (calls (shared s) @ cs)))"
    and "(95 / 100) ^ Suc n * (c - combAvg (locals (threads s ! 1))) < c - pressureMax (pt_thread_of r)"
    and "4 * Suc n \<le> passes_of 1 us"
  shows "\<exists>p \<le> passes_of 1 us. rising pf (calls (shared s)) (initTime (mon s)) c 1 p s"
proof -
  note facts = steady_facts [OF assms(1-4)]
  have three: "length (threads s) = 3" using assms(4) by (simp add: steady_def launched_def)
  have like: "roomy (threads s ! k) \<and> \<not> returned (threads s ! k) \<and>
      map sensor (rings (locals (threads s ! k))) = [lcs, pts, tcs] ! k" if "k < 3" for k
    using facts that three by (metis length_map nth_map nth_mem)
  have pt: "roomy (threads s ! 1)" "\<not> returned (threads s ! 1)" "map sensor (rings (locals (threads s ! 1))) = pts"
    using like [of 1] by simp_all
  have obj: "obj (threads s ! 1) = pt_thread_of r" using assms(4) by (simp add: steady_def launched_def launch_def)
  have "hot_reader pf (calls (shared s)) c (threads s ! 1)"
    using pt obj assms(8,9) program_threads(2) [OF assms(1-3)] by (simp add: hot_reader_def launched_def launch_def pts_def)
  moreover have "PT1 \<in> set (map sensor (rings (locals (threads s ! 1))))" "length (rings (locals (threads s ! 1))) = 4"
    using pt(3) by (simp_all add: pts_def flip: length_map [of sensor])
  then obtain p where p: "passes_left c (threads s ! 1) p" "p \<le> passes_of 1 us"
    using passes_left_bound [OF pt(1), of n c] obj assms(10,11) by (metis le_trans)
  moreover have "roomy (threads s ! j) \<and> PT1 \<notin> sensor ` set (rings (locals (threads s ! j)))" if "j < 3" "j \<noteq> 1" for j
  proof -
    have "set (map sensor (rings (locals (threads s ! j)))) = set ([lcs, pts, tcs] ! j)" using like [OF that(1)] by simp
    moreover have "j = 0 \<or> j = 2" using that by linarith
    ultimately show ?thesis using like [OF that(1)] by (auto simp: lcs_def tcs_def image_set)
  qed
  moreover have "in_burn (calls (shared s)) (initTime (mon s)) s"
    using assms(6,7) facts by (auto simp: in_burn_def burning_def burn_pcs_def)
  ultimately show ?thesis using three by (auto simp: rising_def)
qed

text \<open>A sample boot with the shutoff enabled 4750 ms after the start of a burn of 10 s.\<close>

definition shutoff_config :: "config_section list" where
  "shutoff_config = boot_config @
     [(''Worker'', [(''preignite_ms'', nat_str 750), (''hotflow_ms'', nat_str 10000)]),
      (''Pressure'', [(''shutoff_enabled'', nat_str 1), (''pressureshutoff_ms'', nat_str 4750)])]"

lemma shutoff_config_ok: "config_ok shutoff_config"
  using boot_config_ok sample_numbers(3)
  by (simp add: shutoff_config_def boot_config_def sample_numbers config_ok_def section_name_ok_def key_ok_def value_ok_def
      MAX_CONFIG_LENGTH_def newline_def NUL_def is_space_def)

definition shutoff_boot :: boot where
  "shutoff_boot = boot_with shutoff_config (\<lambda>_. replicate 17 blank_item)"

lemma shutoff_boot_runs:
  obtains r open_fds w' where "main_start shutoff_boot idle_world = (Running r, open_fds, w')"
    and "burn r = \<lparr>burn_time = 10000, preigniteTime = 750, pressureShutoffDelay = 4750, shutoffEnabled = True\<rparr>"
    and "pressureMax (pt_thread_of r) = 800"
    and "calibrated (pt_thread_of r) 480 = 9641 / 10"
proof -
  obtain m where m: "readFrom (Some (print_config shutoff_config)) = Some (Inr (0, m))" "config_wf m"
    and vals: "\<And>sec key. values_of m (sec, key) = map snd (filter (\<lambda>p. fst p = (sec, key)) (pairs_of shutoff_config))"
    using read_printed [OF shutoff_config_ok] by metis
  have pairs: "values_of m (''Worker'', ''hotflow_ms'') = [nat_str 10000]" "values_of m (''Worker'', ''preignite_ms'') = [nat_str 750]"
    "values_of m (''Pressure'', ''pressureshutoff_ms'') = [nat_str 4750]" "values_of m (''Pressure'', ''shutoff_enabled'') = [nat_str 1]"
    "values_of m (''Pressure'', ''pressure_max'') = []" "values_of m (''Pressure'', ''pressure_min'') = []"
    "values_of m (''Pressure'', ''pressure_slope'') = []" "values_of m (''Pressure'', ''pressure_yint'') = []"
    by (simp_all add: vals shutoff_config_def boot_config_def pairs_of_def)
  have net: "map snd (filter (\<lambda>p. fst p = (''Network'', ''address'')) (pairs_of shutoff_config)) = [''10.0.0.2'']"
    by (simp add: shutoff_config_def boot_config_def pairs_of_def)
  obtain r open_fds w' where start: "main_start shutoff_boot idle_world = (Running r, open_fds, w')"
    using boot_with_runs [OF shutoff_config_ok net, of "\<lambda>_. replicate 17 blank_item"] unfolding shutoff_boot_def by blast
  obtain m' and so :: OutSocket and w2 args where run: "readFrom (config_file shutoff_boot) = Some (Inr (0, m'))"
    "start_engine shutoff_boot m' w2 = (engine r, args, w')" "burn r = args"
    "start_threads shutoff_boot m' (out_fd so) = Inr (lc_thread r, pt_thread_of r, tc_thread r)" "out_fd so \<noteq> - 1"
    by (rule main_start_running [OF start]) (rule that)
  have m': "m' = m" using run(1) m(1) by (simp add: shutoff_boot_def boot_with_def)
  have "ign_args (fst (new_WorkerVisitor m raw temp w)) =
      \<lparr>burn_time = 10000, preigniteTime = 750, pressureShutoffDelay = 4750, shutoffEnabled = True\<rparr>" for raw temp w
    using worker_parameters [OF m(2) pairs(1-4), of raw temp w] by simp
  then have args: "args = \<lparr>burn_time = 10000, preigniteTime = 750, pressureShutoffDelay = 4750, shutoffEnabled = True\<rparr>"
    using run(2) unfolding m' by (auto simp: start_engine_def new_TitanVisitor_def new_Luna_worker split_beta split: if_splits)
  have limits: "pressure_config atof m = (4, 800, 300, - 3 / 10, 11081 / 10)" for atof
    by (simp add: pressure_config_def getDouble_value [OF m(2)] pairs)
  obtain pmax pmin slope yint where p: "pressure_config (boot_atof shutoff_boot) m' = (fst (pressure_config (boot_atof shutoff_boot) m'), pmax, pmin, slope, yint)"
    and new: "new_PeriodicThread (boot_rounding shutoff_boot) (ring_memory shutoff_boot) (frequency PT1) pts pmax pmin slope yint (Some (out_fd so)) = Inr (pt_thread_of r)"
    by (rule start_threads_new [OF run(4)]) (rule that)
  have "NUM_SENSORS \<notin> set pts" "distinct pts" by (simp_all add: pts_def)
  note pt = constructed_thread [OF new this run(5)]
  have "pressureMax (pt_thread_of r) = 800" "calibrated (pt_thread_of r) 480 = 9641 / 10"
    using pt(3-6) p limits m' by (simp_all add: calibrated_def)
  then show ?thesis using that start run(3) args by blast
qed

text \<open>A START_IGNITION and the first turns of the monitor.\<close>

definition start_turns :: "turn list" where
  "start_turns = [Receive START_IGNITION, Act, Act, Act, Monitor_turn 5, Monitor_turn 5, Monitor_turn 5, Monitor_turn 5]"

lemma burn_begins:
  assumes "cfg = \<lparr>burn_time = 10000, preigniteTime = 750, pressureShutoffDelay = 4750, shutoffEnabled = True\<rparr>"
    and "pc (mon s) = Entering" and "todo s = []"
  shows "\<exists>s'. take_turns cfg pf start_turns s = Inr s' \<and>
     pc (mon s') = Testing \<and> todo s' = [] \<and> initTime (mon s') = 5 \<and> threads s' = threads s"
  using assms by (cases s; cases "mon s") (simp add: start_turns_def command_actions_def)

end
