(* ===== verification/Resfet_Startup.thy ===== *)
theory Resfet_Startup
  imports Resfet_Program
begin

text \<open>
  The program from the moment its sensor threads run: \<open>main\<close> starts them before it makes the
  visitor and initialises the pins, so they sample while it does. The rest of its start is a
  list of steps here (\<open>start_actions\<close>), taken one at a time between the turns of the threads;
  the monitor takes turns from the step that starts it on, and commands are received when no
  step is left. The last section has the safety and the liveness of the whole program over
  these runs.
\<close>

section \<open>The rest of main's start\<close>

datatype start_action = Do action | Hw hw_call | Start_monitor

definition worker_actions :: "config_map \<Rightarrow> WorkerVisitor \<Rightarrow> u32 \<Rightarrow> start_action list" where
  "worker_actions m raw temp =
    (let v = fst (new_WorkerVisitor m raw temp idle_world)
     in [Do (Log_entry DEBUG ''preignite_ms: %d\<newline>'' [Num (unat (preignite_ms v))]),
         Do (Log_entry DEBUG ''hotflow_ms: %d\<newline>'' [Num (unat (hotflow_ms v))]),
         Do (Log_entry DEBUG ''pressureshutoff_ms: %d\<newline>'' [Num (unat (pressureshutoff_ms v))]),
         Do (Log_entry DEBUG ''shutoff_enabled: %d\<newline>'' [Num (of_bool (enableShutoff v))]),
         Do (Set_ignition False), Start_monitor])"

definition luna_actions :: "config_map \<Rightarrow> LunaVisitor \<Rightarrow> u32 \<Rightarrow> u32 \<Rightarrow> start_action list" where
  "luna_actions m raw temp temp' =
    (let v = fst (new_LunaVisitor m raw temp temp' idle_world)
     in worker_actions m (worker raw) temp @
        [Do (Log_entry DEBUG ''use_gitvc: %d\<newline>'' [Num (of_bool (use_gitvc v))]),
         Do (Log_entry DEBUG ''time_between_gitvc_ms: %d\<newline>'' [Num (unat (time_between_gitvc_ms v))]),
         Do (Log_entry DEBUG ''gitvc_wait_time_ms: %d\<newline>'' [Num (unat (gitvc_wait_time_ms v))])] @
        map (\<lambda>t. Do (Log_entry DEBUG ''gitvc_times_ms: %d\<newline>'' [Num (unat t)])) (gitvc_times_ms v))"

definition start_actions :: "boot \<Rightarrow> config_map \<Rightarrow> start_action list" where
  "start_actions bt m =
     (if \<not> snd (getBool (raw_bool bt ''engine_type'') m ''Main'' ''engine_type'') then
        luna_actions m (raw_luna bt) (raw_bool bt ''shutoff_enabled'') (raw_bool bt ''use_gitvc'') @ map Hw luna_pin_calls
      else worker_actions m (raw_worker bt) (raw_bool bt ''shutoff_enabled'') @ map Hw titan_pin_calls)"

text \<open>\<open>raw\<close> is the uninitialised \<open>mainOpen\<close> of the monitor, as in \<open>monitor_start\<close>.\<close>

fun do_start :: "bool \<Rightarrow> start_action \<Rightarrow> stand \<Rightarrow> stand" where
  "do_start raw (Do a) s = s\<lparr>shared := do_action a (shared s)\<rparr>"
| "do_start raw (Hw c) s = s\<lparr>shared := do_calls [c] (shared s)\<rparr>"
| "do_start raw Start_monitor s = (case monitor_start raw (shared s) of (m, w) \<Rightarrow> s\<lparr>mon := m, shared := w\<rparr>)"

datatype boot_turn = Main | Other turn

fun may_turn :: "start_action list \<Rightarrow> turn \<Rightarrow> bool" where
  "may_turn as (Pass k) = True"
| "may_turn as (Monitor_turn now) = (Start_monitor \<notin> set as)"
| "may_turn as _ = (as = [])"

fun boot_turn_of ::
  "bool \<Rightarrow> burn_config \<Rightarrow> platform \<Rightarrow> boot_turn \<Rightarrow> start_action list \<times> stand \<Rightarrow> thread_error + (start_action list \<times> stand)" where
  "boot_turn_of raw cfg pf Main (as, s) =
     Inr (case as of [] \<Rightarrow> ([], s) | a # as' \<Rightarrow> (as', do_start raw a s))"
| "boot_turn_of raw cfg pf (Other t) (as, s) =
     (if may_turn as t then (case take_turn cfg pf t s of Inl e \<Rightarrow> Inl e | Inr s' \<Rightarrow> Inr (as, s'))
      else Inr (as, s))"

fun boot_turns ::
  "bool \<Rightarrow> burn_config \<Rightarrow> platform \<Rightarrow> boot_turn list \<Rightarrow> start_action list \<times> stand \<Rightarrow> thread_error + (start_action list \<times> stand)" where
  "boot_turns raw cfg pf [] b = Inr b"
| "boot_turns raw cfg pf (t # ts) b =
     (case boot_turn_of raw cfg pf t b of Inl e \<Rightarrow> Inl e | Inr b' \<Rightarrow> boot_turns raw cfg pf ts b')"

fun others :: "boot_turn list \<Rightarrow> turn list" where
  "others [] = []"
| "others (Main # ts) = others ts"
| "others (Other t # ts) = t # others ts"

text \<open>The configuration main has read, and the world in which it starts the sensor threads.\<close>

definition main_config :: "boot \<Rightarrow> config_map" where
  "main_config bt = (case readFrom (config_file bt) of Some (Inr (rc, m)) \<Rightarrow> m | _ \<Rightarrow> Map.empty)"

definition threads_world :: "boot \<Rightarrow> world \<Rightarrow> world" where
  "threads_world bt w =
    (let m = main_config bt
     in logger_log INFO ''Successfully started UDP server on %s:%d\<newline>''
          [Str (c_str (snd (getString m ''Network'' ''address'' (raw_address bt) 16))),
           Num (unat (snd (getInt m ''Network'' ''port'' (raw_port bt))))]
          ((snd (initialize_spi w))\<lparr>ignitionOn := False, pressureShutoff := False\<rparr>))"

definition boot_start :: "(nat \<Rightarrow> u8 list) \<Rightarrow> boot \<Rightarrow> running \<Rightarrow> world \<Rightarrow> start_action list \<times> stand" where
  "boot_start mem bt r w =
     (start_actions bt (main_config bt),
      \<lparr>mon = \<lparr>pc = Entering, mainOpen = False, initTime = 0, timeElapsed = 0\<rparr>, todo = [],
       threads = launched mem r, shared = threads_world bt w\<rparr>)"

section \<open>The steps are those of main\<close>

lemma new_visitor_pure:
  "fst (new_WorkerVisitor m raw temp w) = fst (new_WorkerVisitor m raw temp w')"
  "fst (new_LunaVisitor m rawl temp temp' w) = fst (new_LunaVisitor m rawl temp temp' w')"
  by (simp_all add: new_WorkerVisitor_def new_LunaVisitor_def Let_def)

text \<open>Taken without interruption they are \<open>start_engine\<close>, with the first entry of the monitor among
  those of main.\<close>

definition same_hw :: "world \<Rightarrow> world \<Rightarrow> bool" where
  "same_hw w w' \<longleftrightarrow> calls w' = calls w \<and> adc_mutex w' = adc_mutex w \<and> ignitionOn w' = ignitionOn w \<and>
     pressureShutoff w' = pressureShutoff w"

lemma main_start_world:
  assumes "main_start bt w = (Running r, open_fds, w')"
  shows "start_engine bt (main_config bt) (threads_world bt w) = (engine r, burn r, w')"
  using assms
  by (auto simp: main_start_def main_config_def start_udp_def threads_world_def Let_def initialize_spi_def
      dest!: start_listening_running split: if_splits option.splits sum.splits prod.splits outcome.splits)

lemma boot_mains:
  "boot_turns raw cfg pf (replicate n Main) (as, s) = Inr (drop n as, fold (do_start raw) (take n as) s)"
proof (induction n arbitrary: as s)
  case (Suc n)
  then show ?case by (cases as) simp_all
qed simp

lemma same_hw_refl [simp]: "same_hw w w"
  by (simp add: same_hw_def)

lemma fold_hw:
  "fold (do_start raw) (map Hw cs) s = s\<lparr>shared := do_calls cs (shared s)\<rparr>"
proof (induction cs arbitrary: s)
  case (Cons c cs)
  then show ?case by (simp add: do_calls_def)
qed (simp add: do_calls_def)

lemma same_hw_trans: "same_hw w w' \<Longrightarrow> same_hw w' w'' \<Longrightarrow> same_hw w w''"
  by (simp add: same_hw_def)

lemma log_actions_world:
  "\<forall>a \<in> set as. \<exists>lv fmt args. a = Do (Log_entry lv fmt args) \<Longrightarrow> same_hw (shared s) (shared (fold (do_start raw) as s))"
proof (induction as arbitrary: s)
  case (Cons a as)
  then obtain lv fmt args where "a = Do (Log_entry lv fmt args)" by auto
  then have "same_hw (shared s) (shared (do_start raw a s))" by (simp add: same_hw_def)
  then show ?case using Cons same_hw_trans by fastforce
qed simp

lemma worker_actions_world:
  "same_hw ((shared s)\<lparr>ignitionOn := False\<rparr>) (shared (fold (do_start raw) (worker_actions m v temp) s))"
  by (simp add: worker_actions_def Let_def same_hw_def monitor_start_def)

lemma luna_actions_world:
  "same_hw ((shared s)\<lparr>ignitionOn := False\<rparr>) (shared (fold (do_start raw) (luna_actions m v temp temp') s))"
  unfolding luna_actions_def Let_def fold_append comp_apply
  by (rule same_hw_trans [OF same_hw_trans [OF worker_actions_world log_actions_world] log_actions_world]) auto

lemma start_actions_world:
  "same_hw (snd (snd (start_engine bt m (shared s)))) (shared (fold (do_start raw) (start_actions bt m) s))"
  using worker_actions_world [of s raw m "raw_worker bt" "raw_bool bt ''shutoff_enabled''"]
    luna_actions_world [of s raw m "raw_luna bt" "raw_bool bt ''shutoff_enabled''" "raw_bool bt ''use_gitvc''"]
  by (auto simp: start_actions_def start_engine_def new_TitanVisitor_def initialize_pins_def titan_initialize_pins_def
      fold_hw same_hw_def split_beta new_visitor_fields new_Luna_fields new_visitor_mutex)

lemma boot_turns_append:
  "boot_turns raw cfg pf (ts @ us) b = (case boot_turns raw cfg pf ts b of Inl e \<Rightarrow> Inl e | Inr b' \<Rightarrow> boot_turns raw cfg pf us b')"
  by (induction ts arbitrary: b) (auto split: sum.splits)

lemma boot_others:
  "boot_turns raw cfg pf (map Other ts) ([], s) =
     (case take_turns cfg pf ts s of Inl e \<Rightarrow> Inl e | Inr s' \<Rightarrow> Inr ([], s'))"
proof (induction ts arbitrary: s)
  case (Cons t ts)
  have "may_turn [] t" by (cases t) simp_all
  then show ?case using Cons by (simp split: sum.splits)
qed simp

lemma do_start_fields:
  "threads (fold (do_start raw) as s) = threads s" "todo (fold (do_start raw) as s) = todo s"
  "pc (mon s) = Entering \<Longrightarrow> pc (mon (fold (do_start raw) as s)) = Entering"
proof -
  have "threads (do_start raw a s) = threads s \<and> todo (do_start raw a s) = todo s \<and>
      (pc (mon s) = Entering \<longrightarrow> pc (mon (do_start raw a s)) = Entering)" for a s
    by (cases a) (simp_all add: monitor_start_def)
  then show "threads (fold (do_start raw) as s) = threads s" "todo (fold (do_start raw) as s) = todo s"
    "pc (mon s) = Entering \<Longrightarrow> pc (mon (fold (do_start raw) as s)) = Entering"
    by (induction as arbitrary: s) simp_all
qed

text \<open>A start without interruption ends in the world \<open>main_start\<close> ends in, up to the log.\<close>

definition all_mains :: "boot \<Rightarrow> boot_turn list" where
  "all_mains bt = replicate (length (start_actions bt (main_config bt))) Main"

lemma uninterrupted_start:
  assumes "main_start bt w = (Running r, open_fds, w')"
  shows "\<exists>s. boot_turns raw cfg pf (all_mains bt) (boot_start mem bt r w) = Inr ([], s) \<and> same_hw w' (shared s) \<and>
     threads s = launched mem r \<and> todo s = [] \<and> pc (mon s) = Entering"
  using start_actions_world [of bt "main_config bt" "snd (boot_start mem bt r w)" raw] main_start_world [OF assms]
  by (simp add: all_mains_def boot_start_def boot_mains do_start_fields)

text \<open>The pin initialisation does not take the mutex of the ADCs: between the two halves of a read of a
  thread that runs already it deselects the ADC, and the transfer addresses none.\<close>

lemma initialisation_deselects_read:
  assumes "header_ok num"
  shows "selected num (cs @ take 2 (read_calls s) @ luna_pin_calls) = []"
    and "selected num (cs @ take 2 (read_calls s) @ titan_pin_calls) = []"
proof -
  let ?w = "idle_world\<lparr>calls := cs @ take 2 (read_calls s)\<rparr>"
  show "selected num (cs @ take 2 (read_calls s) @ luna_pin_calls) = []"
    "selected num (cs @ take 2 (read_calls s) @ titan_pin_calls) = []"
    using selected_idle [OF bus_idle_initialize_pins(1) [OF assms, of ?w]]
      selected_idle [OF bus_idle_initialize_pins(2) [OF assms, of ?w]]
    by (simp_all add: initialize_pins_def titan_initialize_pins_def)
qed

section \<open>What every step and turn keeps\<close>

fun safe_start :: "start_action \<Rightarrow> bool" where
  "safe_start (Do a) = harmless a"
| "safe_start (Hw (Gpio_write p l)) = harmless (Write p l)"
| "safe_start _ = True"

lemma start_actions_safe: "a \<in> set (start_actions bt m) \<Longrightarrow> safe_start a"
  by (auto simp: start_actions_def luna_actions_def worker_actions_def Let_def luna_pin_calls_def titan_pin_calls_def
      cs_init_calls_def pin_defs split: if_splits)

lemma closed_view:
  "closed_inv (view_stand s) \<longleftrightarrow>
     (\<forall>a \<in> set (todo s). harmless a) \<and>
     (pc (mon s) \<in> idle_pcs \<longrightarrow> not_high (shared s) IGN_START) \<and>
     (pc (mon s) \<in> insert Closing_igniter idle_pcs \<or> \<not> mainOpen (mon s) \<longrightarrow> not_high (shared s) MAIN_VALVE)"
  by (simp add: closed_inv_def view_stand_def commanded_valve_calls)

text \<open>The monitor has not moved before it is started.\<close>

definition booting :: "start_action list \<Rightarrow> stand \<Rightarrow> bool" where
  "booting as s \<longleftrightarrow> wired s \<and> closed_inv (view_stand s) \<and> (\<forall>a \<in> set as. safe_start a) \<and>
     (Start_monitor \<in> set as \<longrightarrow> pc (mon s) = Entering)"

lemma safe_not_high:
  "safe_start (Hw c) \<Longrightarrow> p \<in> {MAIN_VALVE, IGN_START} \<Longrightarrow> commanded cs p \<noteq> Some HIGH \<Longrightarrow> commanded (cs @ [c]) p \<noteq> Some HIGH"
  by (cases c) (auto simp: commanded_append commanded_Cons map_add_def)

lemma booting_step:
  assumes "booting (a # as) s"
  shows "booting as (do_start raw a s)"
proof (cases a)
  case (Do b)
  have "harmless b" using assms Do by (simp add: booting_def)
  then show ?thesis
    using assms Do harmless_not_high [of b MAIN_VALVE "shared s"] harmless_not_high [of b IGN_START "shared s"]
    by (auto simp: booting_def closed_view wired_def action_keeps_mutex)
next
  case (Hw c)
  have "safe_start (Hw c)" using assms Hw by (simp add: booting_def)
  then show ?thesis
    using assms Hw safe_not_high [of c MAIN_VALVE "calls (shared s)"] safe_not_high [of c IGN_START "calls (shared s)"]
    by (auto simp: booting_def closed_view wired_def)
next
  case Start_monitor
  then show ?thesis
    using assms by (auto simp: booting_def closed_view wired_def monitor_start_def idle_pcs_def)
qed

lemma booting_turn:
  assumes "booting as s" and "may_turn as t" and "take_turn cfg pf t s = Inr s'" and "commands [t] \<subseteq> monitored"
  shows "booting as s'"
proof -
  have keeps: "pc (mon s') = pc (mon s)" if "Start_monitor \<in> set as"
    using assms(2,3) that by (cases t) (auto split: if_splits sum.splits)
  have "wired s" "closed_inv (view_stand s)" "take_turns cfg pf [t] s = Inr s'" using assms(1,3) by (simp_all add: booting_def)
  from turns_closed [OF this assms(4)] keeps assms(1) show ?thesis by (simp add: booting_def)
qed

lemma booting_turns:
  "boot_turns raw cfg pf ts (as, s) = Inr (as', s') \<Longrightarrow> booting as s \<Longrightarrow> commands (others ts) \<subseteq> monitored \<Longrightarrow> booting as' s'"
proof (induction ts arbitrary: as s)
  case (Cons t ts)
  show ?case
  proof (cases t)
    case Main
    then show ?thesis using Cons booting_step by (cases as) auto
  next
    case (Other u)
    have cmds: "commands [u] \<subseteq> monitored" "commands (others ts) \<subseteq> monitored"
      using Cons.prems(3) Other commands_append [of "[u]" "others ts"] by auto
    show ?thesis
    proof (cases "may_turn as u")
      case True
      then obtain s1 where "take_turn cfg pf u s = Inr s1" "boot_turns raw cfg pf ts (as, s1) = Inr (as', s')"
        using Cons.prems(1) Other by (auto split: sum.splits)
      then show ?thesis using Cons.IH booting_turn [OF Cons.prems(2) True _ cmds(1)] cmds(2) by blast
    next
      case False
      then show ?thesis using Cons Other cmds(2) by simp
    qed
  qed
qed simp

text \<open>The threads stay on their rings, and no run fails where these have enough memory.\<close>

lemma do_start_steady: "steady rs s \<Longrightarrow> steady rs (do_start raw a s)"
  by (cases a) (simp_all add: steady_def action_keeps_mutex monitor_start_def)

lemma boot_turns_steady:
  assumes "steady rs s" and "\<forall>r \<in> set rs. sock (obj r) \<notin> {None, Some (- 1)}"
  shows "\<exists>as' s'. boot_turns raw cfg pf ts (as, s) = Inr (as', s') \<and> steady rs s'"
  using assms(1)
proof (induction ts arbitrary: as s)
  case (Cons t ts)
  have "\<exists>as1 s1. boot_turn_of raw cfg pf t (as, s) = Inr (as1, s1) \<and> steady rs s1"
  proof (cases t)
    case Main
    then show ?thesis using Cons.prems do_start_steady by (cases as) auto
  next
    case (Other u)
    obtain s1 where "take_turn cfg pf u s = Inr s1" "steady rs s1" using steady_turn [OF Cons.prems assms(2)] by blast
    then show ?thesis using Other Cons.prems by auto
  qed
  then obtain as1 s1 where "boot_turn_of raw cfg pf t (as, s) = Inr (as1, s1)" "steady rs s1" by blast
  then show ?case using Cons.IH [of s1 as1] by simp
qed simp

section \<open>Whole runs\<close>

lemma boot_start_booting:
  assumes "main_start bt w = (Running r, open_fds, w')" and "\<not> adc_mutex w"
    and "not_high w MAIN_VALVE" and "not_high w IGN_START"
  shows "booting (fst (boot_start mem bt r w)) (snd (boot_start mem bt r w))"
proof -
  have "wired (program_start False mem r w')" by (rule program_facts [OF assms(1,2)])
  then have "\<forall>q \<in> set (launched mem r). connected q" by (simp add: wired_def)
  then show ?thesis
    using assms(2-4) start_actions_safe
    by (auto simp: booting_def boot_start_def wired_def closed_view threads_world_def initialize_spi_def Let_def
        commanded_append commanded_Cons)
qed

lemma boot_run_booting:
  assumes "main_start bt w = (Running r, open_fds, w')" and "\<not> adc_mutex w"
    and "not_high w MAIN_VALVE" and "not_high w IGN_START"
    and "boot_turns raw (burn r) pf ts (boot_start mem bt r w) = Inr (as, s)" and "commands (others ts) \<subseteq> monitored"
  shows "booting as s"
  using booting_turns [OF _ boot_start_booting [OF assms(1-4)] assms(6)] assms(5) by (metis prod.collapse)

lemma boot_run_steady:
  assumes "main_start bt w = (Running r, open_fds, w')" and "\<not> adc_mutex w" and "\<forall>s. 17 \<le> length (ring_memory bt s)"
    and "\<forall>i < 3. length (mem i) = 260"
  shows "\<exists>as s. boot_turns raw cfg pf ts (boot_start mem bt r w) = Inr (as, s) \<and> steady (launched mem r) s"
  unfolding boot_start_def
proof (rule boot_turns_steady)
  show "steady (launched mem r)
     \<lparr>mon = \<lparr>pc = Entering, mainOpen = False, initTime = 0, timeElapsed = 0\<rparr>, todo = [],
       threads = launched mem r, shared = threads_world bt w\<rparr>"
    using program_threads(2) [OF assms(1,3,4)] assms(2)
    by (simp add: steady_def threads_world_def initialize_spi_def Let_def)
  show "\<forall>q \<in> set (launched mem r). sock (obj q) \<notin> {None, Some (- 1)}"
    using program_threads(2) [OF assms(1,3,4)] by blast
qed

text \<open>C3: from the start of its threads on, and as long as the operator sends no direct main-valve or
  igniter command, the program never has the main valve or the igniter driven high while no
  burn is in progress, nor the main valve before the monitor has opened it: for every
  configuration file and every interleaving of the rest of main's start, the monitor, the
  commands and the three sensor threads, up to the point where one of those leaves its
  memory.\<close>

theorem run_keeps_valves_closed:
  assumes "main_start bt w = (Running r, open_fds, w')" and "\<not> adc_mutex w"
    and "not_high w MAIN_VALVE" and "not_high w IGN_START"
    and "boot_turns raw (burn r) pf ts (boot_start mem bt r w) = Inr (as, s)" and "commands (others ts) \<subseteq> monitored"
  shows "(pc (mon s) \<in> {Entering, Polling, Beginning, Clearing} \<longrightarrow>
       not_high (shared s) MAIN_VALVE \<and> not_high (shared s) IGN_START) \<and>
     (\<not> mainOpen (mon s) \<longrightarrow> not_high (shared s) MAIN_VALVE)"
  using closed_safe boot_run_booting [OF assms] by (simp add: booting_def)

lemma start_then_turns:
  assumes "main_start bt w = (Running r, open_fds, w')"
  obtains s0 where "same_hw w' (shared s0)" and "threads s0 = launched mem r" and "todo s0 = []" and "pc (mon s0) = Entering"
    and "\<And>ts s. take_turns (burn r) pf ts s0 = Inr s \<Longrightarrow>
       boot_turns raw (burn r) pf (all_mains bt @ map Other ts) (boot_start mem bt r w) = Inr ([], s)"
proof -
  obtain s0 where s0: "boot_turns raw (burn r) pf (all_mains bt) (boot_start mem bt r w) = Inr ([], s0)"
    "same_hw w' (shared s0)" "threads s0 = launched mem r" "todo s0 = []" "pc (mon s0) = Entering"
    using uninterrupted_start [OF assms] by blast
  show ?thesis by (rule that [OF s0(2-5)]) (simp add: boot_turns_append s0(1) boot_others)
qed

lemma others_append: "others (ts @ map Other us) = others ts @ us"
  by (induction ts rule: others.induct) (simp_all, induction us, simp_all)

lemma others_mains: "others (all_mains bt @ map Other us) = us"
proof -
  have "others (replicate n Main) = []" for n by (induction n) simp_all
  then show ?thesis by (simp add: others_append all_mains_def)
qed

theorem run_keeps_valves_closed_witness:
  "\<exists>r open_fds w' as s. main_start sample_boot idle_world = (Running r, open_fds, w') \<and>
     boot_turns True (burn r) plain_platform (all_mains sample_boot @ map Other start_turns)
       (boot_start (\<lambda>_. replicate 260 0) sample_boot r idle_world) = Inr (as, s) \<and>
     (\<not> mainOpen (mon s) \<longrightarrow> not_high (shared s) MAIN_VALVE)"
proof -
  obtain r open_fds w' where start: "main_start sample_boot idle_world = (Running r, open_fds, w')"
    using sample_boot_runs by blast
  obtain s0 where go: "\<And>ts s. take_turns (burn r) plain_platform ts s0 = Inr s \<Longrightarrow>
      boot_turns True (burn r) plain_platform (all_mains sample_boot @ map Other ts)
        (boot_start (\<lambda>_. replicate 260 0) sample_boot r idle_world) = Inr ([], s)"
    by (rule start_then_turns [OF start]) (rule that)
  have "\<forall>k. Pass k \<notin> set start_turns" by (simp add: start_turns_def)
  then obtain s where "take_turns (burn r) plain_platform start_turns s0 = Inr s" using take_turns_no_pass by blast
  note run = go [OF this]
  have "\<not> adc_mutex idle_world" "not_high idle_world MAIN_VALVE" "not_high idle_world IGN_START"
    "commands (others (all_mains sample_boot @ map Other start_turns)) \<subseteq> monitored"
    unfolding others_mains by (simp_all add: idle_world_def start_turns_def monitored_def)
  from run_keeps_valves_closed [OF start this(1-3) run this(4)] show ?thesis using start run by blast
qed

text \<open>C4: at whatever point of such a run the ignition flag is off and the command thread idle, as after
  a STOP_IGNITION, every continuation without a START_IGNITION or a direct main-valve or
  igniter command in which the monitor takes ten turns ends with the monitor waiting, the
  ignition flag off, and neither the main valve nor the igniter driven high, whatever the
  sensor threads and the other commands do and whatever the clock says.\<close>

theorem run_stop_ends_burn:
  assumes "main_start bt w = (Running r, open_fds, w')" and "\<not> adc_mutex w"
    and "not_high w MAIN_VALVE" and "not_high w IGN_START"
    and "boot_turns raw (burn r) pf ts (boot_start mem bt r w) = Inr (as, s)" and "commands (others ts) \<subseteq> monitored"
    and "\<not> ignitionOn (shared s)" and "todo s = []"
    and "take_turns (burn r) pf us s = Inr s'" and "commands us \<subseteq> monitored - {START_IGNITION}"
    and "10 \<le> monitor_turns us"
  shows "pc (mon s') = Polling \<and> \<not> ignitionOn (shared s') \<and>
     not_high (shared s') MAIN_VALVE \<and> not_high (shared s') IGN_START"
  using stop_ends [OF _ _ assms(7-11)] boot_run_booting [OF assms(1-6)] by (simp add: booting_def)

theorem run_stop_ends_burn_witness:
  "\<exists>r open_fds w' as s s'. main_start sample_boot idle_world = (Running r, open_fds, w') \<and>
     boot_turns True (burn r) plain_platform (all_mains sample_boot @ map Other [])
       (boot_start (\<lambda>_. replicate 260 0) sample_boot r idle_world) = Inr (as, s) \<and>
     take_turns (burn r) plain_platform (Receive SET_DRIVER2 # Act # replicate 10 (Monitor_turn 9)) s = Inr s' \<and>
     pc (mon s') = Polling \<and> not_high (shared s') IGN_START"
proof -
  let ?us = "Receive SET_DRIVER2 # Act # replicate 10 (Monitor_turn 9)"
  obtain r open_fds w' where start: "main_start sample_boot idle_world = (Running r, open_fds, w')"
    using sample_boot_runs by blast
  obtain s0 where s0: "same_hw w' (shared s0)" "todo s0 = []" and go: "\<And>ts s. take_turns (burn r) plain_platform ts s0 = Inr s \<Longrightarrow>
      boot_turns True (burn r) plain_platform (all_mains sample_boot @ map Other ts)
        (boot_start (\<lambda>_. replicate 260 0) sample_boot r idle_world) = Inr ([], s)"
    by (rule start_then_turns [OF start]) (rule that)
  have off: "\<not> ignitionOn (shared s0)" using s0(1) main_start_ignition [OF start] by (simp add: same_hw_def)
  have run: "boot_turns True (burn r) plain_platform (all_mains sample_boot @ map Other [])
      (boot_start (\<lambda>_. replicate 260 0) sample_boot r idle_world) = Inr ([], s0)"
    by (rule go) simp
  have "\<forall>k. Pass k \<notin> set ?us" by simp
  then obtain s' where on: "take_turns (burn r) plain_platform ?us s0 = Inr s'" using take_turns_no_pass by blast
  have "\<not> adc_mutex idle_world" "not_high idle_world MAIN_VALVE" "not_high idle_world IGN_START"
    "commands (others (all_mains sample_boot @ map Other [])) \<subseteq> monitored"
    "commands ?us \<subseteq> monitored - {START_IGNITION}" "10 \<le> monitor_turns ?us"
    unfolding others_mains by (simp_all add: idle_world_def monitored_def numeral_eq_Suc)
  from run_stop_ends_burn [OF start this(1-3) run this(4) off s0(2) on this(5,6)] show ?thesis using start run on by blast
qed





end
