(* ===== verification/Resfet_Logger.thy ===== *)
theory Resfet_Logger
  imports Resfet_World Resfet_Time
begin

text \<open>
  The logger (include/logger/logger.hpp, src/logger/logger.cpp): the \<open>printf\<close> formats the
  sources use, the constructor with the log file it creates, and the four ways to log.

  A \<open>char\<close> array that holds a string is the string, with the size of the array where it
  is written. What the kernel does for \<open>stat\<close>, \<open>mkdir\<close> and \<open>open\<close> is the argument \<open>k\<close>; the
  file, the standard output and the standard error are the fields of \<open>streams\<close>. Clock
  readings and calendar dates are arguments, in the order the code takes them.
  \<open>unsigned long\<close> is taken to have 64 bits.
\<close>

section \<open>Log levels\<close>

definition LogLevel_code :: "LogLevel \<Rightarrow> nat" where
  "LogLevel_code l = (case l of SILENT \<Rightarrow> 0 | ERROR \<Rightarrow> 1 | INFO \<Rightarrow> 2 | DEBUG \<Rightarrow> 3)"

instantiation LogLevel :: linorder
begin

definition less_eq_LogLevel :: "LogLevel \<Rightarrow> LogLevel \<Rightarrow> bool" where
  "less_eq_LogLevel a b \<longleftrightarrow> LogLevel_code a \<le> LogLevel_code b"

definition less_LogLevel :: "LogLevel \<Rightarrow> LogLevel \<Rightarrow> bool" where
  "less_LogLevel a b \<longleftrightarrow> LogLevel_code a < LogLevel_code b"

instance
proof
  fix a b :: LogLevel
  assume "a \<le> b" and "b \<le> a"
  then show "a = b"
    by (cases a; cases b) (simp_all add: less_eq_LogLevel_def LogLevel_code_def)
qed (auto simp: less_eq_LogLevel_def less_LogLevel_def)

end

definition LogLevelStrings :: "string list" where
  "LogLevelStrings = [''SILENT'', ''ERROR'', ''INFO'', ''DEBUG'']"

section \<open>Formats\<close>

text \<open>The directives the sources use; any other is \<open>Conv_unknown\<close>.\<close>

datatype piece = Text char | Conv_d | Conv_s | Conv_lu | Conv_star_s | Conv_unknown

fun parse_format :: "string \<Rightarrow> piece list" where
  "parse_format [] = []"
| "parse_format (c # f) =
     (if c \<noteq> CHR ''%'' then Text c # parse_format f
      else if take 1 f = ''d'' then Conv_d # parse_format (drop 1 f)
      else if take 1 f = ''s'' then Conv_s # parse_format (drop 1 f)
      else if take 2 f = ''lu'' then Conv_lu # parse_format (drop 2 f)
      else if take 3 f = ''.*s'' then Conv_star_s # parse_format (drop 3 f)
      else [Conv_unknown])"

definition int_str :: "int \<Rightarrow> string" where
  "int_str i = (if i < 0 then CHR ''-'' # nat_str (nat (- i)) else nat_str (nat i))"

text \<open>What is printed; \<open>None\<close> is an argument of the wrong type, or none. An unsigned 32-bit
  argument of \<open>%d\<close> is printed as the signed number of the same bits. \<open>pin\<close> numbers the
  enumerators of bcm2835.h.\<close>

fun render :: "(RPiGPIOPin \<Rightarrow> nat) \<Rightarrow> piece list \<Rightarrow> log_arg list \<Rightarrow> string option" where
  "render pin [] args = Some []"
| "render pin (Text c # ps) args = map_option (Cons c) (render pin ps args)"
| "render pin (Conv_d # ps) (Num n # args) =
     map_option ((@) (int_str (sint (word_of_nat n :: u32)))) (render pin ps args)"
| "render pin (Conv_d # ps) (SNum i # args) = map_option ((@) (int_str i)) (render pin ps args)"
| "render pin (Conv_d # ps) (Pin p # args) = map_option ((@) (nat_str (pin p))) (render pin ps args)"
| "render pin (Conv_s # ps) (Str s # args) = map_option ((@) (c_str s)) (render pin ps args)"
| "render pin (Conv_lu # ps) (Num n # args) = map_option ((@) (nat_str n)) (render pin ps args)"
| "render pin (Conv_star_s # ps) (SNum k # Str s # args) =
     map_option ((@) (if k < 0 then c_str s else take (nat k) (c_str s))) (render pin ps args)"
| "render pin _ _ = None"

definition format_text :: "(RPiGPIOPin \<Rightarrow> nat) \<Rightarrow> string \<Rightarrow> log_arg list \<Rightarrow> string option" where
  "format_text pin fmt args = render pin (parse_format fmt) args"

text \<open>The arguments a format takes. A call is well typed when it passes them; more arguments than
  directives do no harm.\<close>

fun fits :: "piece list \<Rightarrow> log_arg list \<Rightarrow> bool" where
  "fits [] args = True"
| "fits (Text c # ps) args = fits ps args"
| "fits (Conv_d # ps) (Num n # args) = fits ps args"
| "fits (Conv_d # ps) (SNum i # args) = fits ps args"
| "fits (Conv_d # ps) (Pin p # args) = fits ps args"
| "fits (Conv_s # ps) (Str s # args) = fits ps args"
| "fits (Conv_lu # ps) (Num n # args) = fits ps args"
| "fits (Conv_star_s # ps) (SNum k # Str s # args) = fits ps args"
| "fits _ _ = False"

definition well_typed :: "log_call \<Rightarrow> bool" where
  "well_typed c = (case c of Log_call lv fmt args \<Rightarrow> fits (parse_format fmt) args)"

lemma render_fits: "render pin ps args \<noteq> None \<longleftrightarrow> fits ps args"
  by (induction pin ps args rule: render.induct) simp_all

lemma well_typed_text: "well_typed (Log_call lv fmt args) \<Longrightarrow> \<exists>s. format_text pin fmt args = Some s"
  using render_fits [of pin "parse_format fmt" args] by (auto simp: well_typed_def format_text_def)

section \<open>The logger object\<close>

definition MAX_BUF_LEN :: nat where "MAX_BUF_LEN = 256"

record Logger =
  logger_name :: string
  filename :: string
  file_fd :: int
  log_level :: LogLevel
  logger_buf :: string

record streams =
  file_out :: string
  std_out :: string
  std_err :: string

text \<open>\<open>strcat\<close> into an array of \<open>n\<close> characters, and a sequence of them.\<close>

definition strcat :: "nat \<Rightarrow> string \<Rightarrow> string \<Rightarrow> ub + string" where
  "strcat n s a = (if length s + length a < n then Inr (s @ a) else Inl OutOfBounds)"

fun strcat_all :: "nat \<Rightarrow> string \<Rightarrow> string list \<Rightarrow> ub + string" where
  "strcat_all n s [] = Inr s"
| "strcat_all n s (a # as) =
     (case strcat n s a of Inl e \<Rightarrow> Inl e | Inr s' \<Rightarrow> strcat_all n s' as)"

lemma strcat_all_concat:
  "length s < n \<Longrightarrow> strcat_all n s as =
     (if length s + length (concat as) < n then Inr (s @ concat as) else Inl OutOfBounds)"
  by (induction as arbitrary: s) (auto simp: strcat_def)

section \<open>Creating the log file\<close>

record 'fs kernel =
  k_stat :: "string \<Rightarrow> 'fs \<Rightarrow> bool"
  k_mkdir :: "string \<Rightarrow> 'fs \<Rightarrow> bool \<times> 'fs"
  k_open :: "string \<Rightarrow> 'fs \<Rightarrow> int \<times> 'fs"
  k_strerror :: "'fs \<Rightarrow> string"

definition complain :: "string \<Rightarrow> streams \<Rightarrow> streams" where
  "complain s io = io\<lparr>std_err := std_err io @ s\<rparr>"

definition ensure_directory :: "'fs kernel \<Rightarrow> string \<Rightarrow> string \<Rightarrow> 'fs \<times> streams \<Rightarrow> 'fs \<times> streams" where
  "ensure_directory k message d fio =
     (let (fs, io) = fio in
      if k_stat k d fs then (fs, io)
      else case k_mkdir k d fs of
          (True, fs') \<Rightarrow> (fs', io)
        | (False, fs') \<Rightarrow> (fs', complain (message @ k_strerror k fs' @ ''\<newline>'') io))"

definition create_log_file ::
  "'fs kernel \<Rightarrow> timespec \<Rightarrow> tm \<Rightarrow> Logger \<Rightarrow> timestamp_t \<times> 'fs \<times> streams \<Rightarrow>
   ub + (int \<times> Logger \<times> timestamp_t \<times> 'fs \<times> streams)" where
  "create_log_file k now date lg st =
     (let (start, fs, io) = st;
          start' = set_start_time now start;
          time_buf = get_formatted_time date;
          (fs1, io1) = ensure_directory k ''Create logs directory unsuccessful: '' ''logs'' (fs, io)
      in case strcat (MAX_TIME_BUF_LEN + 6) ''logs/'' time_buf of
           Inl e \<Rightarrow> Inl e
         | Inr createdir \<Rightarrow>
             let (fs2, io2) = ensure_directory k ''Create logs subdirectory unsuccessful: '' createdir (fs1, io1);
                 (fd, fs3) = k_open k (filename lg) fs2;
                 lg1 = lg\<lparr>file_fd := fd\<rparr>
             in if fd = - 1
                then Inr (- 1, lg1, start', fs3,
                       complain (''Create log file unsuccessful: '' @ k_strerror k fs3 @ ''\<newline>'') io2)
                else Inr (0, lg1, start', fs3, io2))"

definition new_Logger ::
  "'fs kernel \<Rightarrow> timespec \<times> tm \<Rightarrow> timespec \<times> tm \<Rightarrow> string \<Rightarrow> string \<Rightarrow> string \<Rightarrow> LogLevel \<Rightarrow>
   timestamp_t \<times> 'fs \<times> streams \<Rightarrow> ub + (Logger \<times> timestamp_t \<times> 'fs \<times> streams)" where
  "new_Logger k clock1 clock2 raw nm fname lv st =
     (let (start, fs, io) = st;
          start' = set_start_time (fst clock1) start;
          time_buf = get_formatted_time (snd clock1)
      in case strcat_all MAX_BUF_LEN []
                [''logs/'', time_buf, ''/'', fname, ''_'', time_buf, ''.log''] of
           Inl e \<Rightarrow> Inl e
         | Inr f \<Rightarrow>
             (let io1 = io\<lparr>std_out := std_out io @ ''Filename: '' @ f @ ''\<newline>''\<rparr>;
                  lg = \<lparr>logger_name = nm, filename = f, file_fd = - 1, log_level = lv, logger_buf = raw\<rparr>
              in case create_log_file k (fst clock2) (snd clock2) lg (start', fs, io1) of
                   Inl e \<Rightarrow> Inl e
                 | Inr (rc, lg', st') \<Rightarrow> Inr (lg', st')))"

definition getFilename :: "Logger \<Rightarrow> string" where
  "getFilename lg = filename lg"

section \<open>Logging\<close>

definition log_line :: "string \<Rightarrow> LogLevel \<Rightarrow> u64 \<Rightarrow> string \<Rightarrow> string" where
  "log_line nm level ms message =
     ''['' @ nm @ '']['' @ LogLevelStrings ! LogLevel_code level @ '']['' @ nat_str (unat ms) @ ''] '' @ message"


text \<open>\<open>log\<close>: the two lines it writes take the clock twice.\<close>

definition logger_write ::
  "(RPiGPIOPin \<Rightarrow> nat) \<Rightarrow> LogLevel \<Rightarrow> string \<Rightarrow> log_arg list \<Rightarrow> u64 \<times> u64 \<Rightarrow> Logger \<times> streams \<Rightarrow>
   ub + (Logger \<times> streams)" where
  "logger_write pin level fmt args ms st =
     (let (lg, io) = st in
      if file_fd lg = - 1 then Inr (lg, complain ''Attempting to log when log file is null\<newline>'' io)
      else if log_level lg < level then Inr (lg, io)
      else case format_text pin fmt args of
          None \<Rightarrow> Inl Bad_argument
        | Some s \<Rightarrow>
            (let message = take (MAX_BUF_LEN - 1) s in
             Inr (lg\<lparr>logger_buf := message\<rparr>,
               io\<lparr>file_out := file_out io @ log_line (logger_name lg) level (fst ms) message,
                  std_out := std_out io @ log_line (logger_name lg) level (snd ms) message\<rparr>)))"

definition logger_error where "logger_error pin = logger_write pin ERROR"

definition logger_info where "logger_info pin = logger_write pin INFO"

definition logger_debug where "logger_debug pin = logger_write pin DEBUG"

definition verbatim ::
  "(RPiGPIOPin \<Rightarrow> nat) \<Rightarrow> string \<Rightarrow> log_arg list \<Rightarrow> Logger \<times> streams \<Rightarrow> ub + (Logger \<times> streams)" where
  "verbatim pin fmt args st =
     (let (lg, io) = st in
      if file_fd lg = - 1 then Inr (lg, complain ''Attempting to log when log file is null\<newline>'' io)
      else case format_text pin fmt args of
          None \<Rightarrow> Inl Bad_argument
        | Some s \<Rightarrow>
            (let message = take (MAX_BUF_LEN - 1) s in
             Inr (lg\<lparr>logger_buf := message\<rparr>,
               io\<lparr>file_out := file_out io @ message, std_out := std_out io @ message\<rparr>)))"

definition logger_data :: "u8 list \<Rightarrow> Logger \<times> streams \<Rightarrow> Logger \<times> streams" where
  "logger_data bytes st =
     (let (lg, io) = st in
      if file_fd lg = - 1 then (lg, complain ''Attempting to log when log file is null\<newline>'' io)
      else (lg, io\<lparr>file_out := file_out io @ map (\<lambda>b. char_of (unat b)) bytes\<rparr>))"

section \<open>A trace of log calls\<close>

text \<open>The entries of \<open>log_calls\<close> of a world, logged one after the other, each with the two clock
  readings it takes.\<close>

fun log_all ::
  "(RPiGPIOPin \<Rightarrow> nat) \<Rightarrow> (log_call \<times> u64 \<times> u64) list \<Rightarrow> Logger \<times> streams \<Rightarrow> ub + (Logger \<times> streams)" where
  "log_all pin [] st = Inr st"
| "log_all pin ((Log_call level fmt args, ms) # es) st =
     (case logger_write pin level fmt args ms st of
        Inl e \<Rightarrow> Inl e
      | Inr st' \<Rightarrow> log_all pin es st')"

fun call_level :: "log_call \<Rightarrow> LogLevel" where
  "call_level (Log_call level fmt args) = level"

fun message_of :: "(RPiGPIOPin \<Rightarrow> nat) \<Rightarrow> log_call \<Rightarrow> string" where
  "message_of pin (Log_call level fmt args) =
     (case format_text pin fmt args of None \<Rightarrow> [] | Some s \<Rightarrow> take 255 s)"

definition lines ::
  "(RPiGPIOPin \<Rightarrow> nat) \<Rightarrow> Logger \<Rightarrow> (u64 \<times> u64 \<Rightarrow> u64) \<Rightarrow> (log_call \<times> u64 \<times> u64) list \<Rightarrow> string" where
  "lines pin lg clock es =
     concat (map (\<lambda>(c, ms). log_line (logger_name lg) (call_level c) (clock ms) (message_of pin c))
       (filter (\<lambda>(c, ms). call_level c \<le> log_level lg) es))"

lemma lines_Cons:
  "lines pin lg clock ((c, ms) # es) =
     (if call_level c \<le> log_level lg
      then log_line (logger_name lg) (call_level c) (clock ms) (message_of pin c) else []) @ lines pin lg clock es"
  by (simp add: lines_def)

lemma lines_buf [simp]: "lines pin (lg\<lparr>logger_buf := b\<rparr>) clock es = lines pin lg clock es"
  by (simp add: lines_def)

lemma log_all_open:
  assumes "file_fd lg \<noteq> - 1" and "\<forall>(c, ms) \<in> set es. well_typed c"
  shows "\<exists>b. log_all pin es (lg, io) = Inr (lg\<lparr>logger_buf := b\<rparr>,
     io\<lparr>file_out := file_out io @ lines pin lg fst es, std_out := std_out io @ lines pin lg snd es\<rparr>)"
  using assms
proof (induction es arbitrary: lg io)
  case Nil
  show ?case by (intro exI [of _ "logger_buf lg"]) (simp add: lines_def)
next
  case (Cons e es)
  obtain level fmt args ms where e: "e = (Log_call level fmt args, ms)"
    by (metis log_call.exhaust surj_pair)
  have typed: "\<forall>(c, ms) \<in> set es. well_typed c" "well_typed (Log_call level fmt args)"
    using Cons.prems(2) e by auto
  then obtain s where s: "format_text pin fmt args = Some s" using well_typed_text by blast
  show ?case
  proof (cases "level \<le> log_level lg")
    case True
    let ?lg = "lg\<lparr>logger_buf := take 255 s\<rparr>"
    let ?io = "io\<lparr>file_out := file_out io @ log_line (logger_name lg) level (fst ms) (take 255 s),
           std_out := std_out io @ log_line (logger_name lg) level (snd ms) (take 255 s)\<rparr>"
    have step: "log_all pin (e # es) (lg, io) = log_all pin es (?lg, ?io)"
      using True Cons.prems(1) s by (simp add: e logger_write_def MAX_BUF_LEN_def Let_def not_le [symmetric])
    have "file_fd ?lg \<noteq> - 1" using Cons.prems(1) by simp
    then obtain b where "log_all pin es (?lg, ?io) = Inr (?lg\<lparr>logger_buf := b\<rparr>, ?io\<lparr>
        file_out := file_out ?io @ lines pin ?lg fst es, std_out := std_out ?io @ lines pin ?lg snd es\<rparr>)"
      using Cons.IH [of ?lg ?io] typed(1) by blast
    then show ?thesis
      unfolding step using True s by (intro exI [of _ b]) (simp add: e lines_Cons)
  next
    case False
    then have "log_all pin (e # es) (lg, io) = log_all pin es (lg, io)"
      using Cons.prems(1) by (simp add: e logger_write_def not_le)
    then show ?thesis using Cons.IH [OF Cons.prems(1) typed(1)] False by (simp add: e lines_Cons)
  qed
qed

lemma log_all_closed:
  "file_fd lg = - 1 \<Longrightarrow> log_all pin es (lg, io) = Inr (lg, complain
     (concat (replicate (length es) ''Attempting to log when log file is null\<newline>'')) io)"
proof (induction es arbitrary: io)
  case (Cons e es)
  obtain level fmt args ms where "e = (Log_call level fmt args, ms)"
    by (metis log_call.exhaust surj_pair)
  then show ?case using Cons by (simp add: logger_write_def complain_def)
qed (simp add: complain_def)

text \<open>C17: a logger with an open file writes, for a sequence of calls whose arguments match their
  formats, exactly the messages of its level or a more important one, in order, each behind
  its name, level and time and cut to 255 characters, to the file and, with the times of
  a second clock reading, to the standard output; one without a file writes none of them.\<close>

theorem log_writes_enabled_entries:
  assumes "\<forall>(c, ms) \<in> set es. well_typed c"
  shows "\<exists>lg' io'. log_all pin es (lg, io) = Inr (lg', io') \<and> file_fd lg' = file_fd lg \<and>
     (if file_fd lg = - 1 then file_out io' = file_out io \<and> std_out io' = std_out io
      else file_out io' = file_out io @ lines pin lg fst es \<and>
        std_out io' = std_out io @ lines pin lg snd es \<and> std_err io' = std_err io)"
proof (cases "file_fd lg = - 1")
  case True
  then show ?thesis using log_all_closed [OF True, of pin es io] by (simp add: complain_def)
next
  case False
  then show ?thesis using log_all_open [OF False assms, of pin io] by force
qed

definition quiet :: streams where
  "quiet = \<lparr>file_out = [], std_out = [], std_err = []\<rparr>"

theorem log_writes_enabled_entries_witness:
  "\<exists>lg' io'. log_all (\<lambda>_. 17)
       [(Log_call INFO ''Writing driver 1 on using pin %d\<newline>'' [Pin RPI_V2_GPIO_P1_11], 5, 6),
        (Log_call DEBUG ''ready'' [], 7, 8), (Log_call ERROR ''no %s'' [Str ''pin''], 9, 10)]
       (\<lparr>logger_name = ''V'', filename = [], file_fd = 3, log_level = INFO, logger_buf = []\<rparr>, quiet) =
       Inr (lg', io') \<and>
     file_out io' = ''[V][INFO][5] Writing driver 1 on using pin 17\<newline>[V][ERROR][9] no pin''"
proof -
  let ?es = "[(Log_call INFO ''Writing driver 1 on using pin %d\<newline>'' [Pin RPI_V2_GPIO_P1_11], 5, 6),
        (Log_call DEBUG ''ready'' [], 7, 8), (Log_call ERROR ''no %s'' [Str ''pin''], 9, 10)]
        :: (log_call \<times> u64 \<times> u64) list"
  let ?lg = "\<lparr>logger_name = ''V'', filename = [], file_fd = 3, log_level = INFO, logger_buf = []\<rparr>"
  have typed: "\<forall>(c, ms) \<in> set ?es. well_typed c" by (simp add: well_typed_def)
  have "lines (\<lambda>_. 17) ?lg fst ?es = ''[V][INFO][5] Writing driver 1 on using pin 17\<newline>[V][ERROR][9] no pin''"
    by (simp add: lines_def log_line_def LogLevelStrings_def LogLevel_code_def less_eq_LogLevel_def
        format_text_def nat_str.simps c_str_def NUL_def char_of_def bit_0)
  then show ?thesis
    using log_writes_enabled_entries [OF typed, of "\<lambda>_. 17" ?lg quiet] by (auto simp: quiet_def)
qed


section \<open>The log file\<close>

text \<open>What the code relies on of the kernel, as its manual documents it for directories the
  process may write: \<open>mkdir\<close> creates a directory when the path is free and the directory it
  is to lie in exists, and creates nothing else; \<open>open\<close> with \<open>O_CREAT\<close> fails exactly when
  the directory of the file does not exist.\<close>

definition parent :: "string \<Rightarrow> string" where
  "parent p = rev (drop 1 (dropWhile (\<lambda>c. c \<noteq> CHR ''/'') (rev p)))"

definition parent_exists :: "'fs kernel \<Rightarrow> string \<Rightarrow> 'fs \<Rightarrow> bool" where
  "parent_exists k p fs \<longleftrightarrow> CHR ''/'' \<notin> set p \<or> k_stat k (parent p) fs"

definition kernel_laws :: "'fs kernel \<Rightarrow> bool" where
  "kernel_laws k \<longleftrightarrow>
     (\<forall>p fs. fst (k_mkdir k p fs) = (\<not> k_stat k p fs \<and> parent_exists k p fs)) \<and>
     (\<forall>p q fs. k_stat k q (snd (k_mkdir k p fs)) = (k_stat k q fs \<or> fst (k_mkdir k p fs) \<and> q = p)) \<and>
     (\<forall>p fs. (fst (k_open k p fs) = - 1) = (\<not> parent_exists k p fs))"

lemma parent_append: "CHR ''/'' \<notin> set f \<Longrightarrow> parent (d @ ''/'' @ f) = d"
proof -
  assume "CHR ''/'' \<notin> set f"
  then have "dropWhile (\<lambda>c. c \<noteq> CHR ''/'') (rev f @ CHR ''/'' # rev d) = CHR ''/'' # rev d"
    by (subst dropWhile_append2) auto
  then show ?thesis by (simp add: parent_def)
qed

lemma date_no_slash: "tm_ok d \<Longrightarrow> CHR ''/'' \<notin> set (get_formatted_time d)"
  using formatted_chars [of d "CHR ''/''"] by (auto simp: is_digit_def)

lemma ensure_directory_stat:
  assumes "kernel_laws k" and "parent_exists k d fs"
  shows "k_stat k q (fst (ensure_directory k msg d (fs, io))) = (k_stat k q fs \<or> q = d)"
  using assms by (auto simp: ensure_directory_def kernel_laws_def split: prod.splits bool.splits)
    (metis fst_conv snd_conv)+

text \<open>The two directories are there once \<open>create_log_file\<close> opens the file.\<close>

lemma create_log_file_opens:
  assumes "kernel_laws k" and "tm_ok date" and "parent (filename lg) = ''logs/'' @ dir" and "CHR ''/'' \<in> set (filename lg)"
  shows "\<exists>rc fd start' fs' io'. create_log_file k now date lg (start, fs, io) =
      Inr (rc, lg\<lparr>file_fd := fd\<rparr>, start', fs', io') \<and> rc = (if fd = - 1 then - 1 else 0) \<and>
      (fd = - 1 \<longleftrightarrow> \<not> k_stat k (''logs/'' @ dir) fs \<and> dir \<noteq> get_formatted_time date)"
proof -
  let ?new = "''logs/'' @ get_formatted_time date"
  obtain fs1 io1 where one: "ensure_directory k ''Create logs directory unsuccessful: '' ''logs'' (fs, io) = (fs1, io1)"
    by fastforce
  obtain fs2 io2 where two: "ensure_directory k ''Create logs subdirectory unsuccessful: '' ?new (fs1, io1) = (fs2, io2)"
    by fastforce
  have "parent_exists k ''logs'' fs" by (simp add: parent_exists_def)
  then have stat1: "k_stat k q fs1 = (k_stat k q fs \<or> q = ''logs'')" for q
    using ensure_directory_stat [OF assms(1), of "''logs''" fs q _ io] one by (metis fst_conv)
  have "parent ?new = ''logs''"
    using parent_append [OF date_no_slash [OF assms(2)], of "''logs''"] by simp
  then have "parent_exists k ?new fs1" using stat1 by (simp add: parent_exists_def)
  then have stat2: "k_stat k q fs2 = (k_stat k q fs1 \<or> q = ?new)" for q
    using ensure_directory_stat [OF assms(1), of ?new fs1 q _ io1] two by (metis fst_conv)
  obtain fd fs3 where three: "k_open k (filename lg) fs2 = (fd, fs3)" by fastforce
  have "fd = - 1 \<longleftrightarrow> \<not> parent_exists k (filename lg) fs2"
    using assms(1) three unfolding kernel_laws_def by (metis fst_conv)
  also have "\<dots> \<longleftrightarrow> \<not> k_stat k (''logs/'' @ dir) fs \<and> dir \<noteq> get_formatted_time date"
    using assms(3,4) stat1 stat2 by (simp add: parent_exists_def)
  finally have "fd = - 1 \<longleftrightarrow> \<not> k_stat k (''logs/'' @ dir) fs \<and> dir \<noteq> get_formatted_time date" .
  moreover have "strcat (MAX_TIME_BUF_LEN + 6) ''logs/'' (get_formatted_time date) = Inr ?new"
    using length_formatted [OF assms(2)] by (simp add: strcat_def MAX_TIME_BUF_LEN_def)
  moreover have "create_log_file k now date lg (start, fs, io) = Inr (if fd = - 1 then - 1 else 0,
      lg\<lparr>file_fd := fd\<rparr>, set_start_time now start, fs3,
      if fd = - 1 then complain (''Create log file unsuccessful: '' @ k_strerror k fs3 @ ''\<newline>'') io2 else io2)"
    if "strcat (MAX_TIME_BUF_LEN + 6) ''logs/'' (get_formatted_time date) = Inr ?new"
    using that one two three by (simp add: create_log_file_def Let_def)
  ultimately show ?thesis by blast
qed

lemma new_Logger_cases:
  assumes "kernel_laws k" and "tm_ok date1" and "tm_ok date2" and "CHR ''/'' \<notin> set fname"
  shows "case new_Logger k (now1, date1) (now2, date2) raw nm fname lv (start, fs, io) of
     Inl e \<Rightarrow> e = OutOfBounds \<and> 207 \<le> length fname
   | Inr (lg, st) \<Rightarrow> length fname < 207 \<and> logger_name lg = nm \<and> log_level lg = lv \<and>
       (file_fd lg = - 1 \<longleftrightarrow> date1 \<noteq> date2 \<and> \<not> k_stat k (''logs/'' @ get_formatted_time date1) fs)"
proof -
  let ?T = "get_formatted_time date1"
  let ?name = "''logs/'' @ ?T @ ''/'' @ fname @ ''_'' @ ?T @ ''.log''"
  have name: "strcat_all MAX_BUF_LEN [] [''logs/'', ?T, ''/'', fname, ''_'', ?T, ''.log''] =
      (if length fname < 207 then Inr ?name else Inl OutOfBounds)"
    using length_formatted [OF assms(2)] by (simp add: strcat_all_concat MAX_BUF_LEN_def del: strcat_all.simps)
  show ?thesis
  proof (cases "length fname < 207")
    case False
    then show ?thesis using name by (simp add: new_Logger_def Let_def)
  next
    case True
    let ?lg = "\<lparr>logger_name = nm, filename = ?name, file_fd = - 1, log_level = lv, logger_buf = raw\<rparr>"
    have "CHR ''/'' \<notin> set (fname @ ''_'' @ ?T @ ''.log'')"
      using assms(4) date_no_slash [OF assms(2)] by simp
    from parent_append [OF this, of "''logs/'' @ ?T"]
    have "parent (filename ?lg) = ''logs/'' @ ?T" by simp
    from create_log_file_opens [OF assms(1,3) this, of now2 "set_start_time now1 start" fs
        "io\<lparr>std_out := std_out io @ ''Filename: '' @ ?name @ ''\<newline>''\<rparr>"]
    show ?thesis
      using name True formatted_inj [OF assms(2,3)] by (auto simp: new_Logger_def Let_def)
  qed
qed

text \<open>C30: on a directory the process may write, the constructor of a logger overflows its
  256-character file name exactly when the name it is given has 207 characters or more;
  otherwise the logger has an open file exactly when the directory of the first of its two
  clock readings exists already or the second reading falls into the same second: a
  logger made across the change of a second creates one directory, opens its file in
  another, and logs nothing.\<close>

theorem logger_opens_its_file:
  assumes "kernel_laws k" and "tm_ok date1" and "tm_ok date2" and "CHR ''/'' \<notin> set fname"
  shows "case new_Logger k (now1, date1) (now2, date2) raw nm fname lv (start, fs, io) of
     Inl e \<Rightarrow> e = OutOfBounds \<and> 207 \<le> length fname
   | Inr (lg, st) \<Rightarrow> length fname < 207 \<and> logger_name lg = nm \<and> log_level lg = lv \<and>
       (file_fd lg = - 1 \<longleftrightarrow> date1 \<noteq> date2 \<and> \<not> k_stat k (''logs/'' @ get_formatted_time date1) fs)"
  by (rule new_Logger_cases [OF assms])

text \<open>A kernel with directories only, for the witnesses.\<close>

definition set_kernel :: "string set kernel" where
  "set_kernel =
    \<lparr>k_stat = (\<lambda>p fs. p \<in> fs),
     k_mkdir = (\<lambda>p fs. if p \<notin> fs \<and> (CHR ''/'' \<notin> set p \<or> parent p \<in> fs) then (True, insert p fs) else (False, fs)),
     k_open = (\<lambda>p fs. if CHR ''/'' \<notin> set p \<or> parent p \<in> fs then (3, fs) else (- 1, fs)),
     k_strerror = (\<lambda>fs. ''No such file or directory'')\<rparr>"

lemma set_kernel_laws: "kernel_laws set_kernel"
  by (auto simp: kernel_laws_def set_kernel_def parent_exists_def)

theorem logger_opens_its_file_witness:
  "let d1 = \<lparr>tm_year = 119, tm_mon = 8, tm_mday = 17, tm_hour = 9, tm_min = 5, tm_sec = 0\<rparr>;
       d2 = d1\<lparr>tm_sec := 1\<rparr>; t = \<lparr>tv_sec = 1568711100, tv_nsec = 0\<rparr> in
   (case new_Logger set_kernel (t, d1) (t, d2) [] ''Networking'' ''NetworkLog'' DEBUG (0, {}, quiet) of
      Inl e \<Rightarrow> False | Inr (lg, st) \<Rightarrow> file_fd lg = - 1) \<and>
   (case new_Logger set_kernel (t, d1) (t, d1) [] ''Networking'' ''NetworkLog'' DEBUG (0, {}, quiet) of
      Inl e \<Rightarrow> False | Inr (lg, st) \<Rightarrow> file_fd lg \<noteq> - 1)"
proof -
  let ?d1 = "\<lparr>tm_year = 119, tm_mon = 8, tm_mday = 17, tm_hour = 9, tm_min = 5, tm_sec = 0\<rparr>"
  let ?d2 = "?d1\<lparr>tm_sec := 1\<rparr>" and ?t = "\<lparr>tv_sec = 1568711100, tv_nsec = 0\<rparr>"
  have ok: "tm_ok ?d1" "tm_ok ?d2" "CHR ''/'' \<notin> set ''NetworkLog''" by (simp_all add: tm_ok_def)
  note made = logger_opens_its_file [OF set_kernel_laws ok(1) _ ok(3),
      where ?now1.0 = ?t and ?now2.0 = ?t and raw = "[]" and nm = "''Networking''" and lv = DEBUG and
        start = 0 and fs = "{}" and io = quiet]
  show ?thesis
    using made [OF ok(1)] made [OF ok(2)]
    unfolding Let_def by (auto simp: set_kernel_def split: sum.splits)
qed

end
