(* ===== verification/Resfet_Decoder.thy ===== *)
theory Resfet_Decoder
  imports Resfet_Packet Complex_Main
begin

text \<open>
  The log decoder (scripts/struct_decoder.py): for each of eight sensors it reads the log of
  packets and writes one line of text per sample, with the time stamp, the raw reading and
  the reading calibrated by a table.

  \<open>decode_log\<close> of Resfet_Packet is its loop over the packets of one log. \<open>files\<close> maps a name to
  the bytes of the file, \<open>None\<close> when it cannot be opened. A Python float is a real, with the
  rounding of each literal and operation as the parameter \<open>rnd\<close>; \<open>float_str\<close> is \<open>str\<close> on floats.
  The script stops at the first exception and keeps what it has written.
\<close>

section \<open>The tables\<close>

definition filenames :: "string list" where
  "filenames = [''LC1'', ''PT1'', ''PT2'', ''PT3'', ''PT4'', ''TC1'', ''TC2'', ''TC3'']"

definition cals :: "(string \<times> real \<times> real) list" where
  "cals =
     [(''LC1'', 4321 / 10000, - 30438 / 100),
      (''PT1'', 378 / 1000, - 25033 / 100),
      (''PT2'', - 2834 / 10000, 10202 / 10),
      (''PT3'', - 3431 / 10000, 1277),
      (''PT4'', - 3178 / 10000, 11087 / 10),
      (''TC1'', - 1676 / 10000, 3084 / 10),
      (''TC2'', 1611 / 10000, - 250),
      (''TC3'', 1611 / 10000, - 250)]"

section \<open>The script\<close>

datatype script_error = FileNotFoundError string | KeyError string

definition int_str :: "int \<Rightarrow> string" where
  "int_str i = (if i < 0 then CHR ''-'' # nat_str (nat (- i)) else nat_str (nat i))"

definition calibrate :: "(real \<Rightarrow> real) \<Rightarrow> real \<times> real \<Rightarrow> int \<Rightarrow> real" where
  "calibrate rnd ab d = rnd (rnd (rnd (fst ab) * of_int d) + rnd (snd ab))"

definition sample_text :: "(real \<Rightarrow> real) \<Rightarrow> (real \<Rightarrow> string) \<Rightarrow> real \<times> real \<Rightarrow> int \<times> nat \<Rightarrow> string" where
  "sample_text rnd float_str ab x =
     nat_str (snd x) @ '' '' @ int_str (fst x) @ '' '' @ float_str (calibrate rnd ab (fst x)) @ ''\<newline>''"

fun write_samples ::
  "(real \<Rightarrow> real) \<Rightarrow> (real \<Rightarrow> string) \<Rightarrow> string \<Rightarrow> (int \<times> nat) list \<Rightarrow> string \<times> script_error option" where
  "write_samples rnd float_str filename [] = ([], None)"
| "write_samples rnd float_str filename (x # xs) =
     (case map_of cals filename of
        None \<Rightarrow> ([], Some (KeyError filename))
      | Some ab \<Rightarrow>
          (let (txt, err) = write_samples rnd float_str filename xs
           in (sample_text rnd float_str ab x @ txt, err)))"

text \<open>The files written, in order, and the exception that ends the script.\<close>

fun decode_files ::
  "(real \<Rightarrow> real) \<Rightarrow> (real \<Rightarrow> string) \<Rightarrow> (string \<Rightarrow> u8 list option) \<Rightarrow> string list \<Rightarrow>
   (string \<times> string) list \<times> script_error option" where
  "decode_files rnd float_str files [] = ([], None)"
| "decode_files rnd float_str files (filename # fs) =
     (case files (''./'' @ filename @ ''.log'') of
        None \<Rightarrow> ([], Some (FileNotFoundError filename))
      | Some bytes \<Rightarrow>
          (case write_samples rnd float_str filename (decode_log bytes) of
             (txt, Some e) \<Rightarrow> ([(''./'' @ filename @ ''_Decoded.log'', txt)], Some e)
           | (txt, None) \<Rightarrow>
               (let (out, err) = decode_files rnd float_str files fs
                in ((''./'' @ filename @ ''_Decoded.log'', txt) # out, err))))"

definition struct_decoder ::
  "(real \<Rightarrow> real) \<Rightarrow> (real \<Rightarrow> string) \<Rightarrow> (string \<Rightarrow> u8 list option) \<Rightarrow> (string \<times> string) list \<times> script_error option" where
  "struct_decoder rnd float_str files = decode_files rnd float_str files filenames"

section \<open>What it writes\<close>

lemma cals_complete: "name \<in> set filenames \<Longrightarrow> \<exists>ab. map_of cals name = Some ab"
proof -
  have "map fst cals = filenames" by (simp add: filenames_def cals_def)
  then have "set filenames = fst ` set cals" by (metis set_map)
  then show "name \<in> set filenames \<Longrightarrow> \<exists>ab. map_of cals name = Some ab"
    using map_of_eq_None_iff [of cals name] by (cases "map_of cals name") simp_all
qed

lemma write_samples_all:
  "map_of cals name = Some ab \<Longrightarrow>
   write_samples rnd float_str name xs = (concat (map (sample_text rnd float_str ab) xs), None)"
  by (induction xs) simp_all

text \<open>The packets of a log, as the sensor threads write them.\<close>

type_synonym packets = "(SENSOR \<times> sample list \<times> u8 list) list"

definition log_bytes :: "packets \<Rightarrow> u8 list" where
  "log_bytes ps = concat (map (\<lambda>(s, xs, old). packet s xs old) ps)"

definition log_samples :: "packets \<Rightarrow> sample list" where
  "log_samples ps = concat (map (\<lambda>(s, xs, old). xs) ps)"

definition full_packets :: "packets \<Rightarrow> bool" where
  "full_packets ps \<longleftrightarrow> (\<forall>(s, xs, old) \<in> set ps. length xs = 16 \<and> length old = 260 \<and> (\<forall>x \<in> set xs. unat (fst x) < 32768))"

lemma decode_log_bytes:
  assumes "full_packets ps"
  shows "decode_log (log_bytes ps) = map (\<lambda>(r, t). (int (unat r), unat t)) (log_samples ps)"
  unfolding log_bytes_def log_samples_def
  by (rule decode_log_full) (use assms in \<open>fastforce simp: full_packets_def\<close>)+

lemma decode_files_decoded:
  assumes "\<forall>name \<in> set names. \<exists>bytes. files (''./'' @ name @ ''.log'') = Some bytes \<and>
       decode_log bytes = map (\<lambda>(r, t). (int (unat r), unat t)) (ys name)"
    and "set names \<subseteq> set filenames"
  shows "decode_files rnd float_str files names =
     (map (\<lambda>name. (''./'' @ name @ ''_Decoded.log'',
        concat (map (\<lambda>(r, t). sample_text rnd float_str (the (map_of cals name)) (int (unat r), unat t)) (ys name)))) names, None)"
  using assms
proof (induction names)
  case (Cons name names)
  obtain ab where ab: "map_of cals name = Some ab" using cals_complete [of name] Cons.prems(2) by fastforce
  obtain bytes where "files (''./'' @ name @ ''.log'') = Some bytes"
    "decode_log bytes = map (\<lambda>(r, t). (int (unat r), unat t)) (ys name)" using Cons.prems(1) by auto
  moreover from this(2) have "write_samples rnd float_str name (decode_log bytes) =
      (concat (map (\<lambda>(r, t). sample_text rnd float_str ab (int (unat r), unat t)) (ys name)), None)"
    using write_samples_all [OF ab] by (simp add: case_prod_unfold comp_def)
  ultimately show ?case using Cons ab by simp
qed simp

lemma decode_files_all:
  assumes "\<forall>name \<in> set names. files (''./'' @ name @ ''.log'') = Some (log_bytes (packets_in name))"
    and "\<forall>name \<in> set names. full_packets (packets_in name)" and "set names \<subseteq> set filenames"
  shows "decode_files rnd float_str files names =
     (map (\<lambda>name. (''./'' @ name @ ''_Decoded.log'',
        concat (map (\<lambda>(r, t). sample_text rnd float_str (the (map_of cals name)) (int (unat r), unat t))
          (log_samples (packets_in name))))) names, None)"
  using assms decode_log_bytes by (intro decode_files_decoded) auto

text \<open>C21: given the logs of all its sensors, each a sequence of full packets with readings below
  \<open>2 ^ 15\<close>, the decoder script runs to its end without an exception and writes, for each sensor,
  one line per logged sample in order, with the time stamp and the reading the sample had
  when it was logged and the reading calibrated by the entry of that sensor.\<close>

theorem decoder_script_roundtrip:
  assumes "\<forall>name \<in> set filenames. files (''./'' @ name @ ''.log'') = Some (log_bytes (packets_in name))"
    and "\<forall>name \<in> set filenames. full_packets (packets_in name)"
  shows "struct_decoder rnd float_str files =
     (map (\<lambda>name. (''./'' @ name @ ''_Decoded.log'',
        concat (map (\<lambda>(r, t). sample_text rnd float_str (the (map_of cals name)) (int (unat r), unat t))
          (log_samples (packets_in name))))) filenames, None)"
  unfolding struct_decoder_def by (rule decode_files_all [OF assms subset_refl])

theorem decoder_script_roundtrip_witness:
  "let ps = [(PT1, replicate 16 (1000, 7), replicate 260 0)];
       files = (\<lambda>name. if name = ''./PT1.log'' then Some (log_bytes ps) else Some []) in
   fst (struct_decoder (\<lambda>x. x) (\<lambda>_. ''x'') files) ! 1 =
     (''./PT1_Decoded.log'', concat (replicate 16 ''7 1000 x\<newline>'')) \<and>
   snd (struct_decoder (\<lambda>x. x) (\<lambda>_. ''x'') files) = None"
proof -
  let ?ps = "[(PT1, replicate 16 (1000, 7), replicate 260 0)]"
  let ?files = "\<lambda>name. if name = ''./PT1.log'' then Some (log_bytes ?ps) else Some []"
  let ?in = "\<lambda>name. if name = ''PT1'' then ?ps else []"
  have "\<forall>name \<in> set filenames. ?files (''./'' @ name @ ''.log'') = Some (log_bytes (?in name))"
    by (simp add: filenames_def log_bytes_def)
  moreover have "\<forall>name \<in> set filenames. full_packets (?in name)"
    by (simp add: full_packets_def)
  ultimately have "struct_decoder (\<lambda>x. x) (\<lambda>_. ''x'') ?files =
     (map (\<lambda>name. (''./'' @ name @ ''_Decoded.log'',
        concat (map (\<lambda>(r, t). sample_text (\<lambda>x. x) (\<lambda>_. ''x'') (the (map_of cals name)) (int (unat r), unat t))
          (log_samples (?in name))))) filenames, None)"
    by (rule decoder_script_roundtrip)
  moreover have "nat_str 7 = ''7''" "int_str 1000 = ''1000''"
    by (simp_all add: int_str_def nat_str.simps char_of_def bit_0)
  ultimately show ?thesis
    unfolding Let_def by (simp add: filenames_def log_samples_def sample_text_def map_replicate)
qed

end
