(* ===== verification/Resfet_Recording.thy ===== *)
theory Resfet_Recording
  imports Resfet_Startup Resfet_Logger Resfet_Decoder
begin

text \<open>
  From the ADC to the text: what the sensor threads of the running program sample, log and
  keep in their rings, in any interleaving, and what the decoder script makes of the files
  their loggers have written.

  \<open>samples_taken\<close> follows a run and collects the samples a thread takes for one of its rings;
  \<open>recorded\<close> relates them to the rings, packets and logs of the thread.
\<close>

section \<open>The samples of a run\<close>

fun sample_of :: "platform \<Rightarrow> nat \<Rightarrow> nat \<Rightarrow> boot_turn \<Rightarrow> stand \<Rightarrow> sample list" where
  "sample_of pf k i (Other (Pass j)) s =
     (if j = k \<and> k < length (threads s) \<and> at_ring (threads s ! k) = i
      then [sampled pf (sensor (rings (locals (threads s ! k)) ! i)) (calls (shared s))] else [])"
| "sample_of pf k i t s = []"

fun samples_taken ::
  "bool \<Rightarrow> burn_config \<Rightarrow> platform \<Rightarrow> boot_turn list \<Rightarrow> start_action list \<times> stand \<Rightarrow> nat \<Rightarrow> nat \<Rightarrow> sample list" where
  "samples_taken raw cfg pf [] b k i = []"
| "samples_taken raw cfg pf (t # ts) b k i =
     sample_of pf k i t (snd b) @
     (case boot_turn_of raw cfg pf t b of Inl e \<Rightarrow> [] | Inr b' \<Rightarrow> samples_taken raw cfg pf ts b' k i)"

definition recorder :: "SENSOR list \<Rightarrow> (nat \<Rightarrow> sample list) \<Rightarrow> sensor_thread \<Rightarrow> bool" where
  "recorder ss xs r \<longleftrightarrow> recording ss xs (locals r) \<and> thread_ready (obj r) ss \<and> \<not> returned r \<and> at_ring r < length ss"

definition recorded :: "SENSOR list list \<Rightarrow> (nat \<Rightarrow> nat \<Rightarrow> sample list) \<Rightarrow> stand \<Rightarrow> bool" where
  "recorded sss xs s \<longleftrightarrow> \<not> adc_mutex (shared s) \<and> length (threads s) = length sss \<and>
     (\<forall>k < length sss. recorder (sss ! k) (xs k) (threads s ! k))"

lemma recorder_pass:
  assumes "recorder ss xs r" and "\<not> adc_mutex w"
  shows "\<exists>r' w'. thread_pass pf r w = Inr (r', w') \<and> \<not> adc_mutex w' \<and>
     recorder ss (\<lambda>i. xs i @ (if at_ring r = i then [sampled pf (sensor (rings (locals r) ! i)) (calls w)] else [])) r'"
proof -
  have rec: "recording ss xs (locals r)" and ready: "thread_ready (obj r) ss" and on: "\<not> returned r" and at: "at_ring r < length ss"
    using assms(1) by (simp_all add: recorder_def)
  have sn: "sensor (rings (locals r) ! at_ring r) = ss ! at_ring r" and len: "length (rings (locals r)) = length ss"
    using rec at by (simp_all add: recording_def carries_def)
  let ?x = "sampled pf (ss ! at_ring r) (calls w)"
  obtain s' w' where run: "sample_ring pf (obj r) (at_ring r) (locals r, w) = Inr (False, s', w')"
    and new: "recording ss (xs(at_ring r := xs (at_ring r) @ [?x])) s'" and w': "\<not> adc_mutex w'"
    using recording_ring [OF rec ready assms(2) at] by blast
  have "xs(at_ring r := xs (at_ring r) @ [?x]) =
      (\<lambda>i. xs i @ (if at_ring r = i then [sampled pf (sensor (rings (locals r) ! i)) (calls w)] else []))"
    using sn by auto
  moreover have "length (rings s') = length ss" using new by (simp add: recording_def)
  moreover have "Suc (at_ring r) mod length ss < length ss" by (rule mod_less_divisor) (use at in linarith)
  ultimately show ?thesis
    using run new w' ready on at len by (auto simp: thread_pass_def recorder_def)
qed

lemma recorded_turn:
  assumes "recorded sss xs s"
  shows "\<exists>as' s'. boot_turn_of raw cfg pf t (as, s) = Inr (as', s') \<and> recorded sss (\<lambda>k i. xs k i @ sample_of pf k i t s) s'"
proof (cases "\<exists>k. t = Other (Pass k) \<and> k < length (threads s)")
  case True
  then obtain k where k: "t = Other (Pass k)" "k < length sss" using assms by (auto simp: recorded_def)
  have r: "recorder (sss ! k) (xs k) (threads s ! k)" and w: "\<not> adc_mutex (shared s)" and n: "length (threads s) = length sss"
    using assms k(2) by (simp_all add: recorded_def)
  obtain r' w' where pass: "thread_pass pf (threads s ! k) (shared s) = Inr (r', w')" "\<not> adc_mutex w'"
    and r': "recorder (sss ! k) (\<lambda>i. xs k i @ (if at_ring (threads s ! k) = i
      then [sampled pf (sensor (rings (locals (threads s ! k)) ! i)) (calls (shared s))] else [])) r'"
    using recorder_pass [OF r w] by blast
  have "recorded sss (\<lambda>k i. xs k i @ sample_of pf k i t s) (s\<lparr>threads := (threads s)[k := r'], shared := w'\<rparr>)"
    using assms k n pass(2) r' by (auto simp: recorded_def nth_list_update)
  then show ?thesis using pass(1) k n by simp
next
  case False
  then have none: "sample_of pf k i t s = []" for k i by (cases "(pf, k, i, t, s)" rule: sample_of.cases) auto
  have "\<exists>as' s'. boot_turn_of raw cfg pf t (as, s) = Inr (as', s') \<and> threads s' = threads s \<and>
      adc_mutex (shared s') = adc_mutex (shared s)"
  proof (cases t)
    case Main
    show ?thesis
    proof (cases as)
      case (Cons a as')
      have "threads (do_start raw a s) = threads s \<and> adc_mutex (shared (do_start raw a s)) = adc_mutex (shared s)"
        by (cases a) (simp_all add: monitor_start_def action_keeps_mutex)
      then show ?thesis using Main Cons by simp
    qed (use Main in simp)
  next
    case (Other u)
    have "\<exists>s'. take_turn cfg pf u s = Inr s' \<and> threads s' = threads s \<and> adc_mutex (shared s') = adc_mutex (shared s)"
    proof (cases u)
      case (Monitor_turn now)
      then show ?thesis using monitor_keeps_mutex [of cfg now "mon s" "shared s"]
        by (auto simp: split_beta simp del: monitor_step.simps)
    qed (use False Other in \<open>auto simp: action_keeps_mutex split: list.splits\<close>)
    then show ?thesis using Other by auto
  qed
  then show ?thesis using assms none by (auto simp: recorded_def)
qed

lemma recorded_turns:
  "recorded sss xs s \<Longrightarrow> \<exists>as' s'. boot_turns raw cfg pf ts (as, s) = Inr (as', s') \<and>
     recorded sss (\<lambda>k i. xs k i @ samples_taken raw cfg pf ts (as, s) k i) s'"
proof (induction ts arbitrary: as s xs)
  case (Cons t ts)
  obtain as1 s1 where one: "boot_turn_of raw cfg pf t (as, s) = Inr (as1, s1)"
    "recorded sss (\<lambda>k i. xs k i @ sample_of pf k i t s) s1"
    using recorded_turn [OF Cons.prems] by blast
  show ?case using Cons.IH [OF one(2), of as1] one(1) by simp
qed simp

lemma sampled_small:
  assumes "\<not> plain_char_signed pf"
  shows "x \<in> set (samples_taken raw cfg pf ts b k i) \<Longrightarrow> unat (fst x) < 32768"
proof (induction ts arbitrary: b)
  case (Cons t ts)
  have "x \<in> set (sample_of pf k i t s) \<Longrightarrow> unat (fst x) < 32768" for s
    using stream_reading [OF assms] by (cases "(pf, k, i, t, s)" rule: sample_of.cases) (auto split: if_splits)
  then show ?case using Cons by (auto split: sum.splits)
qed simp

section \<open>From the start of the program\<close>

definition bank :: "nat \<Rightarrow> SENSOR list" where
  "bank k = [lcs, pts, tcs] ! k"

lemma launch_recorder:
  assumes "new_PeriodicThread rnd mem freq ss pmax pmin slope yint (Some fd) = Inr th" and "NUM_SENSORS \<notin> set ss"
    and "distinct ss" and "fd \<noteq> - 1" and "\<forall>s \<in> set ss. 17 \<le> length (mem s)" and "length b = 260" and "ss \<noteq> []"
  shows "recorder ss (\<lambda>_. []) (launch th b)"
proof -
  note th = constructed_thread [OF assms(1-4)]
  have "serving plain_platform th ss (calls idle_world) 0 0 (thread_start th b, idle_world)"
    by (rule serving_start [OF th(2) assms(5,6)]) (simp add: idle_world_def)
  then have "recording ss (\<lambda>i. []) (thread_start th b)"
    by (simp add: serving_recording passes_def stream_def)
  then show ?thesis using th(1) assms(7) by (simp add: recorder_def launch_def)
qed

lemma boot_start_recorded:
  assumes "main_start bt w = (Running r, open_fds, w')" and "\<not> adc_mutex w" and "\<forall>s. 17 \<le> length (ring_memory bt s)"
    and "\<forall>i < 3. length (mem i) = 260"
  shows "recorded [lcs, pts, tcs] (\<lambda>k i. []) (snd (boot_start mem bt r w))"
proof -
  obtain m and so :: OutSocket where start: "start_threads bt m (out_fd so) = Inr (lc_thread r, pt_thread_of r, tc_thread r)"
    "out_fd so \<noteq> - 1" by (rule main_start_running [OF assms(1)]) (rule that)
  obtain pmax pmin slope yint where
    new: "new_PeriodicThread (boot_rounding bt) (ring_memory bt) (frequency LC1) lcs pmax pmin slope yint (Some (out_fd so)) = Inr (lc_thread r)"
      "new_PeriodicThread (boot_rounding bt) (ring_memory bt) (frequency PT1) pts pmax pmin slope yint (Some (out_fd so)) = Inr (pt_thread_of r)"
      "new_PeriodicThread (boot_rounding bt) (ring_memory bt) (frequency TC1) tcs pmax pmin slope yint (Some (out_fd so)) = Inr (tc_thread r)"
    by (rule start_threads_new [OF start(1)]) (rule that)
  have "recorder lcs (\<lambda>_. []) (launch (lc_thread r) (mem 0))" "recorder pts (\<lambda>_. []) (launch (pt_thread_of r) (mem 1))"
    "recorder tcs (\<lambda>_. []) (launch (tc_thread r) (mem 2))"
    using assms(3,4) by (intro launch_recorder [OF new(1)] launch_recorder [OF new(2)] launch_recorder [OF new(3)] start(2);
      simp add: lcs_def pts_def tcs_def)+
  then show ?thesis
    using assms(2) by (auto simp: recorded_def boot_start_def launched_def threads_world_def initialize_spi_def Let_def
        less_Suc_eq numeral_eq_Suc)
qed

text \<open>What a logger whose file is open makes of the packets handed to \<open>data\<close>.\<close>

lemma logger_data_all:
  "file_fd lg \<noteq> - 1 \<Longrightarrow> fold logger_data ps (lg, io) =
     (lg, io\<lparr>file_out := file_out io @ map (\<lambda>b. char_of (unat b)) (concat ps)\<rparr>)"
  by (induction ps arbitrary: io) (simp_all add: logger_data_def)

definition file_bytes :: "streams \<Rightarrow> u8 list" where
  "file_bytes io = map (\<lambda>c. word_of_nat (of_char c)) (file_out io)"

lemma byte_mod: "(word_of_nat (unat (b :: u8) mod 256) :: u8) = b"
proof -
  have "unat b mod 256 = unat b" using unat_less(1) [of b] by simp
  then show ?thesis by simp
qed

text \<open>The file of sensor \<open>i\<close> of thread \<open>k\<close>, written by the logger \<open>lg k i\<close>, and the sensor a file of the
  script belongs to.\<close>

definition recorded_file :: "(nat \<Rightarrow> nat \<Rightarrow> Logger) \<Rightarrow> stand \<Rightarrow> nat \<Rightarrow> nat \<Rightarrow> u8 list" where
  "recorded_file lg s k i =
     file_bytes (snd (fold logger_data (packets_of (bank k ! i) (sent (locals (threads s ! k))))
       (lg k i, \<lparr>file_out = [], std_out = [], std_err = []\<rparr>)))"

definition place :: "string \<Rightarrow> nat \<times> nat" where
  "place name = the (map_of
     [(''LC1'', 0, 0), (''PT1'', 1, 0), (''PT2'', 1, 1), (''PT3'', 1, 2), (''PT4'', 1, 3),
      (''TC1'', 2, 0), (''TC2'', 2, 1), (''TC3'', 2, 2)] name)"

lemma recorded_file_concat:
  assumes "file_fd (lg k i) \<noteq> - 1"
  shows "recorded_file lg s k i = concat (packets_of (bank k ! i) (sent (locals (threads s ! k))))"
  by (simp add: recorded_file_def logger_data_all [OF assms] file_bytes_def byte_mod comp_def)

lemma places:
  "name \<in> set filenames \<Longrightarrow> fst (place name) < 3 \<and> snd (place name) < length (bank (fst (place name))) \<and>
     SENSOR_NAMES ! unat (sensor_code (bank (fst (place name)) ! snd (place name))) = name"
  by (auto simp: filenames_def place_def bank_def lcs_def pts_def tcs_def SENSOR_NAMES_def)

section \<open>Properties\<close>

lemma recorded_logs:
  assumes "recorded [lcs, pts, tcs] (samples_taken raw cfg pf ts b) s" and "\<not> plain_char_signed pf"
    and "k < 3" and "i < length (bank k)"
  shows "\<exists>ys. kept 0 (samples_taken raw cfg pf ts b k i) = ys @ items (rings (locals (threads s ! k)) ! i) \<and>
     logs (locals (threads s ! k)) ! i = concat (packets_of (bank k ! i) (sent (locals (threads s ! k)))) \<and>
     decode_log (logs (locals (threads s ! k)) ! i) = map (\<lambda>(r, t). (int (unat r), unat t)) ys"
proof -
  have "recording (bank k) (samples_taken raw cfg pf ts b k) (locals (threads s ! k))"
    using assms(1,3) by (simp add: recorded_def recorder_def bank_def)
  then have car: "carries (bank k ! i) (samples_taken raw cfg pf ts b k i) (rings (locals (threads s ! k)) ! i)
      (packets_of (bank k ! i) (sent (locals (threads s ! k))))"
    and logs: "logs (locals (threads s ! k)) ! i = concat (packets_of (bank k ! i) (sent (locals (threads s ! k))))"
    using assms(4) by (simp_all add: recording_def)
  show ?thesis unfolding logs using carries_logged [OF car] sampled_small [OF assms(2)] by blast
qed



end
