(* ===== verification/Resfet_Log_Types.thy ===== *)
theory Resfet_Log_Types
  imports Resfet_Logger Resfet_Startup
begin

text \<open>
  The calls of the loggers are well typed: every format the visitors, the ignition monitor
  and main pass to a logger is given the arguments it takes, so that logging what they
  log never reads an argument that is not there. Shown for the start of main, for the
  sessions of the clients, and for whole runs, in which the steps of main, the turns of the
  threads and the commands interleave.
\<close>

definition log_ok :: "world \<Rightarrow> bool" where
  "log_ok w \<longleftrightarrow> (\<forall>c \<in> set (log_calls w). well_typed c)"

lemma log_ok_simps [simp]:
  "log_ok (logger_log lv fmt args w) \<longleftrightarrow> log_ok w \<and> fits (parse_format fmt) args"
  "log_ok (do_calls cs w) \<longleftrightarrow> log_ok w"
  "log_ok (gpio_write p l w) \<longleftrightarrow> log_ok w"
  "log_ok (w\<lparr>ignitionOn := b\<rparr>) \<longleftrightarrow> log_ok w"
  "log_ok (w\<lparr>pressureShutoff := b\<rparr>) \<longleftrightarrow> log_ok w"
  "log_ok (w\<lparr>adc_mutex := b\<rparr>) \<longleftrightarrow> log_ok w"
  by (auto simp: log_ok_def logger_log_def well_typed_def)

section \<open>Visitors\<close>

lemma log_ok_drive: "log_ok (drive fmt p l w) \<longleftrightarrow> log_ok w \<and> fits (parse_format fmt) [Pin p]"
  by (simp add: drive_def)

lemma log_ok_Worker: "log_ok w \<Longrightarrow> log_ok (Worker_visitCommand c w)"
  by (cases c) (simp_all add: Worker_visitCommand_def log_ok_drive doIgn_def Let_def)


lemma log_ok_Luna: "log_ok w \<Longrightarrow> log_ok (Luna_visitCommand c w)"
  using log_ok_Worker [of w c]
  by (cases c) (simp_all add: Luna_visitCommand_def log_ok_drive)

lemma log_ok_Titan: "log_ok w \<Longrightarrow> log_ok (Titan_visitCommand c w)"
  using log_ok_Worker [of w c]
  by (cases c) (simp_all add: Titan_visitCommand_def log_ok_drive)

lemma log_ok_new_Worker: "log_ok w \<Longrightarrow> log_ok (snd (new_WorkerVisitor m raw temp w))"
  by (simp add: new_WorkerVisitor_def Let_def)

lemma log_ok_fold_logger:
  "log_ok w \<Longrightarrow> \<forall>x \<in> set xs. fits (parse_format fmt) (f x) \<Longrightarrow> log_ok (fold (\<lambda>x. logger_log lv fmt (f x)) xs w)"
  by (induction xs arbitrary: w) simp_all

lemma log_ok_new_Luna: "log_ok w \<Longrightarrow> log_ok (snd (new_LunaVisitor m raw t1 t2 w))"
  using log_ok_new_Worker [of w m "worker raw" t1]
  by (auto simp: new_LunaVisitor_def Let_def split_beta intro!: log_ok_fold_logger)

section \<open>The ignition monitor and the command thread\<close>

fun action_ok :: "action \<Rightarrow> bool" where
  "action_ok (Log_entry lv fmt args) = fits (parse_format fmt) args"
| "action_ok _ = True"

lemma log_ok_do_action: "log_ok w \<Longrightarrow> action_ok a \<Longrightarrow> log_ok (do_action a w)"
  by (cases a) simp_all

lemma command_actions_ok: "a \<in> set (command_actions c) \<Longrightarrow> action_ok a"
  by (cases c) (auto simp: command_actions_def drive_actions_def)

lemma log_ok_monitor_step: "log_ok w \<Longrightarrow> log_ok (snd (monitor_step cfg now (m, w)))"
  by (cases "pc m"; simp)

definition system_ok :: "system \<Rightarrow> bool" where
  "system_ok s = (case s of (m, acts, w) \<Rightarrow> log_ok w \<and> (\<forall>a \<in> set acts. action_ok a))"

lemma system_ok_step: "sys_step cfg allowed s s' \<Longrightarrow> system_ok s \<Longrightarrow> system_ok s'"
proof (induction rule: sys_step.induct)
  case (monitor now m w m' w' acts)
  then show ?case using log_ok_monitor_step [of w cfg now m] by (simp add: system_ok_def)
next
  case (receive c m w)
  then show ?case using command_actions_ok by (simp add: system_ok_def)
qed (simp_all add: system_ok_def log_ok_do_action)

lemma system_ok_reaches: "reaches cfg allowed s s' \<Longrightarrow> system_ok s \<Longrightarrow> system_ok s'"
  by (induction rule: rtranclp_induct) (auto intro: system_ok_step)

section \<open>The main program\<close>

lemma log_ok_command_loop:
  "(\<And>c w. log_ok w \<Longrightarrow> log_ok (visit c w)) \<Longrightarrow> log_ok w \<Longrightarrow>
   log_ok (snd (snd (command_loop visit rs so w)))"
proof (induction visit rs so w rule: command_loop.induct)
  case (1 visit rs so w)
  show ?case
  proof (cases "recvByte rs so")
    case None
    then show ?thesis using 1(3) by (subst command_loop.simps) simp
  next
    case (Some r)
    obtain out so' rs' where r: "r = (out, so', rs')" by (metis prod_cases3)
    show ?thesis
    proof (cases out)
      case (Value b)
      then show ?thesis
        using 1 Some r by (subst command_loop.simps) (auto simp: fits.simps)
    next
      case (Throws e)
      then show ?thesis
        using 1(3) Some r by (cases e) (subst command_loop.simps, simp)+
    next
      case Overruns
      then show ?thesis using 1(3) Some r by (subst command_loop.simps) simp
    qed
  qed
qed

lemma log_ok_serve:
  assumes "\<And>c w. log_ok w \<Longrightarrow> log_ok (visit c w)"
  shows "log_ok w \<Longrightarrow> log_ok (snd (snd (serve visit cs li open_fds w)))"
proof (induction cs arbitrary: open_fds w)
  case (Cons c cs)
  show ?case
  proof (cases "accept (accepted_fd c) (names c) li open_fds")
    case (Pair out fds')
    show ?thesis
    proof (cases out)
      case (Value so)
      let ?w = "logger_log INFO ''Connected to client: %s\<newline>'' [Str (clientHost so)] w"
      obtain st so' w' where loop: "command_loop visit (input c) so ?w = (st, so', w')"
        by (metis prod_cases3)
      have "log_ok w'"
        using log_ok_command_loop [of visit ?w "input c" so, OF assms] loop Cons.prems by simp
      then show ?thesis
        using Cons.IH Pair Value loop
        by (auto split: session_end.splits prod.splits outcome.splits)
    qed (use Cons.prems Pair in \<open>auto split: net_exception.splits\<close>)
  qed
qed simp


lemma log_ok_start_engine: "log_ok w \<Longrightarrow> start_engine bt m w = (eng, args, w') \<Longrightarrow> log_ok w'"
  using log_ok_new_Luna [of w m "raw_luna bt" "raw_bool bt ''shutoff_enabled''" "raw_bool bt ''use_gitvc''"]
    log_ok_new_Worker [of w m "raw_worker bt" "raw_bool bt ''shutoff_enabled''"]
  by (auto simp: start_engine_def new_TitanVisitor_def initialize_pins_def titan_initialize_pins_def
      split_beta split: if_splits)

lemma log_ok_start_listening: "log_ok w \<Longrightarrow> log_ok (snd (snd (start_listening bt m so open_fds w)))"
  by (auto simp: start_listening_def Let_def split: sum.splits prod.splits outcome.splits
      intro: log_ok_start_engine)

lemma log_ok_start_udp: "log_ok w \<Longrightarrow> log_ok (snd (snd (start_udp bt m open_fds w)))"
  using log_ok_start_listening
  by (auto simp: start_udp_def Let_def split: prod.splits outcome.splits)

lemma log_ok_main_start: "log_ok w \<Longrightarrow> log_ok (snd (snd (main_start bt w)))"
  using log_ok_start_udp
  by (auto simp: main_start_def initialize_spi_def Let_def split: option.splits sum.splits prod.splits)

lemma log_ok_logs: "log_ok w \<Longrightarrow> \<exists>st'. log_all pin (zip (log_calls w) ms) (lg, io) = Inr st'"
proof -
  assume "log_ok w"
  then have "\<forall>(c, t) \<in> set (zip (log_calls w) ms). well_typed c"
    by (auto simp: log_ok_def dest: set_zip_leftD)
  then show ?thesis
    by (cases "file_fd lg = - 1") (use log_all_open log_all_closed in blast)+
qed

section \<open>Runs of the program\<close>

fun start_ok :: "start_action \<Rightarrow> bool" where
  "start_ok (Do a) = action_ok a"
| "start_ok _ = True"

lemma start_actions_ok: "a \<in> set (start_actions bt m) \<Longrightarrow> start_ok a"
  by (auto simp: start_actions_def luna_actions_def worker_actions_def Let_def split: if_splits)

definition run_ok :: "start_action list \<Rightarrow> stand \<Rightarrow> bool" where
  "run_ok as s \<longleftrightarrow> wired s \<and> system_ok (view_stand s) \<and> (\<forall>a \<in> set as. start_ok a \<and> (\<forall>b. a = Do b \<longrightarrow> on_valves b))"

lemma system_ok_view: "system_ok (view_stand s) \<longleftrightarrow> log_ok (shared s) \<and> (\<forall>a \<in> set (todo s). action_ok a)"
  by (simp add: system_ok_def view_stand_def log_ok_def view_def)

lemma run_ok_turn:
  assumes "run_ok as s" and "boot_turn_of raw cfg pf t (as, s) = Inr (as', s')"
  shows "run_ok as' s'"
proof (cases t)
  case Main
  show ?thesis
  proof (cases as)
    case Nil
    then show ?thesis using assms Main by simp
  next
    case (Cons a as1)
    have "run_ok as1 (do_start raw a s)"
      using assms(1) Cons
      by (cases a) (auto simp: run_ok_def wired_def system_ok_view action_keeps_mutex log_ok_do_action monitor_start_def)
    then show ?thesis using assms(2) Main Cons by simp
  qed
next
  case (Other u)
  show ?thesis
  proof (cases "may_turn as u")
    case True
    then have "take_turns cfg pf [u] s = Inr s'" "as' = as" using assms(2) Other by (auto split: sum.splits)
    then show ?thesis
      using turns_refine [of cfg pf "[u]" s s' "commands [u]"] system_ok_reaches [of cfg "commands [u]" "view_stand s" "view_stand s'"]
        assms(1) by (auto simp: run_ok_def)
  qed (use assms Other in simp)
qed

lemma run_ok_turns:
  "run_ok as s \<Longrightarrow> boot_turns raw cfg pf ts (as, s) = Inr (as', s') \<Longrightarrow> run_ok as' s'"
proof (induction ts arbitrary: as s)
  case (Cons t ts)
  obtain as1 s1 where "boot_turn_of raw cfg pf t (as, s) = Inr (as1, s1)" "boot_turns raw cfg pf ts (as1, s1) = Inr (as', s')"
    using Cons.prems(2) by (auto split: sum.splits)
  then show ?case using Cons.IH run_ok_turn [OF Cons.prems(1)] by blast
qed simp

lemma start_actions_on_valves: "Do b \<in> set (start_actions bt m) \<Longrightarrow> on_valves b"
  by (auto simp: start_actions_def luna_actions_def worker_actions_def Let_def split: if_splits)

lemma run_ok_start:
  assumes "main_start bt w = (Running r, open_fds, w1)" and "\<not> adc_mutex w" and "log_ok w"
  shows "run_ok (fst (boot_start mem bt r w)) (snd (boot_start mem bt r w))"
proof -
  have "wired (program_start False mem r w1)" by (rule program_facts [OF assms(1,2)])
  then have "\<forall>q \<in> set (launched mem r). connected q" by (simp add: wired_def)
  then show ?thesis
    using assms(2,3) start_actions_ok start_actions_on_valves
    by (auto simp: run_ok_def boot_start_def wired_def system_ok_view threads_world_def initialize_spi_def Let_def)
qed

lemma log_ok_run:
  assumes "main_start bt w = (Running r, open_fds, w1)" and "\<not> adc_mutex w" and "log_ok w"
    and "boot_turns raw cfg pf ts (boot_start mem bt r w) = Inr (as, s)"
  shows "log_ok (shared s)"
  using run_ok_turns [OF run_ok_start [OF assms(1-3)]] assms(4) by (metis prod.collapse run_ok_def system_ok_view)

section \<open>Properties\<close>



end
