(* ===== verification/Resfet_Libtest.thy ===== *)
theory Resfet_Libtest
  imports Resfet_Logger
begin

text \<open>
  The testing library (include/libtest/libtest.hpp, src/libtest/libtest.cpp): its counters,
  its assertions and its runner.

  The static variables of the file are the record \<open>testlib\<close>; a C string argument is the
  string, and a pointer compared with \<open>NULL\<close> is whether it is null. The counters are
  unbounded integers. An assertion returns its C result; a call of the logger with
  arguments of the wrong type, and a write past \<open>dashes\<close>, are errors.
\<close>

section \<open>State\<close>

record test_stats =
  num_pass :: int
  num_fail :: int
  num_total :: int

record testlib =
  global_stats :: test_stats
  stats :: test_stats
  test_suite_name :: string
  dashes :: "char list"
  logger :: Logger
  io :: streams

definition SUITE_LEN :: int where "SUITE_LEN = 32"
definition TEST_LEN :: int where "TEST_LEN = 32"
definition ASSERT_LEN :: int where "ASSERT_LEN = 32"
definition DASH_LEN :: nat where "DASH_LEN = 128"

definition TAB :: char where "TAB = CHR 0x09"

definition zero_stats :: test_stats where
  "zero_stats = \<lparr>num_pass = 0, num_fail = 0, num_total = 0\<rparr>"

definition say :: "string \<Rightarrow> log_arg list \<Rightarrow> testlib \<Rightarrow> ub + testlib" where
  "say fmt args t =
     (case verbatim (\<lambda>_. 0) fmt args (logger t, io t) of
        Inl e \<Rightarrow> Inl e
      | Inr (lg, o') \<Rightarrow> Inr (t\<lparr>logger := lg, io := o'\<rparr>))"

definition pass :: "testlib \<Rightarrow> testlib" where
  "pass t = t\<lparr>stats := (stats t)\<lparr>num_pass := num_pass (stats t) + 1, num_total := num_total (stats t) + 1\<rparr>\<rparr>"

definition fail :: "testlib \<Rightarrow> testlib" where
  "fail t = t\<lparr>stats := (stats t)\<lparr>num_fail := num_fail (stats t) + 1, num_total := num_total (stats t) + 1\<rparr>\<rparr>"

section \<open>Assertions\<close>

text \<open>The shape the assertions share: log the one or the other message, count, and return.\<close>

definition conclude ::
  "bool \<Rightarrow> string \<times> log_arg list \<Rightarrow> string \<times> log_arg list \<Rightarrow> int \<Rightarrow> testlib \<Rightarrow> ub + (int \<times> testlib)" where
  "conclude ok passing failing ret t =
     (if ok
      then (case say (fst passing) (snd passing) t of Inl e \<Rightarrow> Inl e | Inr t' \<Rightarrow> Inr (ret, pass t'))
      else (case say (fst failing) (snd failing) t of Inl e \<Rightarrow> Inl e | Inr t' \<Rightarrow> Inr (ret, fail t')))"

definition assert_equals :: "int \<Rightarrow> int \<Rightarrow> string \<Rightarrow> testlib \<Rightarrow> ub + (int \<times> testlib)" where
  "assert_equals result expected assert_name =
     conclude (result = expected)
       (TAB # '' Pass: %.*s.\<newline>'', [SNum ASSERT_LEN, Str assert_name, SNum result])
       (TAB # '' Fail: %.*s. Expected %d but result was %d\<newline>'',
        [SNum ASSERT_LEN, Str assert_name, SNum expected, SNum result]) result"

definition assert_not_equals :: "int \<Rightarrow> int \<Rightarrow> string \<Rightarrow> testlib \<Rightarrow> ub + (int \<times> testlib)" where
  "assert_not_equals result expected assert_name =
     conclude (result \<noteq> expected)
       (TAB # '' Pass: %.*s.\<newline>'', [SNum ASSERT_LEN, SNum expected, SNum result])
       (TAB # '' Fail: %.*s. Expected %d but result was %d\<newline>'',
        [SNum ASSERT_LEN, Str assert_name, SNum expected, SNum result]) result"

definition assert_true :: "int \<Rightarrow> string \<Rightarrow> testlib \<Rightarrow> ub + (int \<times> testlib)" where
  "assert_true result assert_name =
     conclude (result \<noteq> 0)
       (TAB # '' Pass: %.*s\<newline>'', [SNum ASSERT_LEN, Str assert_name])
       (TAB # '' Fail: %.*s\<newline>'', [SNum ASSERT_LEN, Str assert_name]) result"

definition assert_false :: "int \<Rightarrow> string \<Rightarrow> testlib \<Rightarrow> ub + (int \<times> testlib)" where
  "assert_false result = assert_true (of_bool (result = 0))"

definition assert_null :: "bool \<Rightarrow> string \<Rightarrow> testlib \<Rightarrow> ub + (int \<times> testlib)" where
  "assert_null is_null = assert_true (of_bool is_null)"

definition assert_not_null :: "bool \<Rightarrow> string \<Rightarrow> testlib \<Rightarrow> ub + (int \<times> testlib)" where
  "assert_not_null is_null = assert_true (of_bool (\<not> is_null))"


text \<open>\<open>strncmp\<close>; of a difference the standard fixes the sign only, which is what the code tests.\<close>

fun strncmp :: "string \<Rightarrow> string \<Rightarrow> nat \<Rightarrow> int" where
  "strncmp a b 0 = 0"
| "strncmp [] [] (Suc n) = 0"
| "strncmp [] (y # ys) (Suc n) = - 1"
| "strncmp (x # xs) [] (Suc n) = 1"
| "strncmp (x # xs) (y # ys) (Suc n) =
     (if x = y then strncmp xs ys n else if (of_char x :: nat) < of_char y then - 1 else 1)"

lemma strncmp_zero: "strncmp a b n = 0 \<longleftrightarrow> take n a = take n b"
  by (induction a b n rule: strncmp.induct) simp_all

definition size_of_int :: "int \<Rightarrow> nat" where
  "size_of_int len = unat (word_of_int len :: u64)"

definition assert_string_equals :: "string \<Rightarrow> string \<Rightarrow> int \<Rightarrow> string \<Rightarrow> testlib \<Rightarrow> ub + (int \<times> testlib)" where
  "assert_string_equals result expected len assert_name =
     (let ret = strncmp result expected (size_of_int len) in
      conclude (ret = 0)
       (TAB # '' Pass: %.*s.\<newline>'', [SNum ASSERT_LEN, Str assert_name, Str result])
       (TAB # '' Fail: %.*s. Expected %s but result was %s\<newline>'',
        [SNum ASSERT_LEN, Str assert_name, Str expected, Str result]) ret)"

definition assert_string_not_equals :: "string \<Rightarrow> string \<Rightarrow> int \<Rightarrow> string \<Rightarrow> testlib \<Rightarrow> ub + (int \<times> testlib)" where
  "assert_string_not_equals result expected len assert_name =
     (let ret = strncmp result expected (size_of_int len) in
      conclude (ret \<noteq> 0)
       (TAB # '' Pass: %.*s.\<newline>'', [SNum ASSERT_LEN, Str expected, Str result])
       (TAB # '' Fail: %.*s. Expected %d but result was %d\<newline>'',
        [SNum ASSERT_LEN, Str assert_name, Str expected, Str result]) ret)"

section \<open>Suites\<close>

definition create_dashes :: "nat \<Rightarrow> char list \<Rightarrow> ub + (int \<times> char list)" where
  "create_dashes len buf =
     (if DASH_LEN < len then Inr (1, buf)
      else case poke 0 (replicate len (CHR ''-'') @ [NUL]) buf of
          None \<Rightarrow> Inl OutOfBounds
        | Some buf' \<Rightarrow> Inr (0, buf'))"

definition testlib_init ::
  "'fs kernel \<Rightarrow> timespec \<times> tm \<Rightarrow> timespec \<times> tm \<Rightarrow> string \<Rightarrow> string \<Rightarrow> testlib \<Rightarrow> timestamp_t \<times> 'fs \<Rightarrow>
   ub + (int \<times> testlib \<times> timestamp_t \<times> 'fs)" where
  "testlib_init k clock1 clock2 raw suite_name t st =
     (case new_Logger k clock1 clock2 raw ''Test Logger'' suite_name DEBUG (fst st, snd st, io t) of
        Inl e \<Rightarrow> Inl e
      | Inr (lg, start', fs', io') \<Rightarrow>
          (case create_dashes (length ''Test Suite: '' + length suite_name) (dashes t) of
             Inl e \<Rightarrow> Inl e
           | Inr (_, ds) \<Rightarrow>
               (case say ''%s\<newline>'' [Str ds]
                       (t\<lparr>test_suite_name := suite_name, logger := lg, io := io', dashes := ds\<rparr>) of
                  Inl e \<Rightarrow> Inl e
                | Inr t1 \<Rightarrow>
                    (case say ''Test Suite: %.*s\<newline>'' [SNum SUITE_LEN, Str suite_name] t1 of
                       Inl e \<Rightarrow> Inl e
                     | Inr t2 \<Rightarrow>
                         (case say ''%s\<newline>'' [Str (dashes t2)] t2 of
                            Inl e \<Rightarrow> Inl e
                          | Inr t3 \<Rightarrow> Inr (0, t3, start', fs'))))))"

definition stats_args :: "test_stats \<Rightarrow> log_arg list" where
  "stats_args s = [SNum (num_pass s), SNum (num_fail s), SNum (num_total s)]"

definition testlib_shutdown :: "testlib \<Rightarrow> ub + (int \<times> testlib)" where
  "testlib_shutdown t =
     (case say ''Global Summary: pass %d, fail %d, total %d\<newline>'' (stats_args (global_stats t)) t of
        Inl e \<Rightarrow> Inl e
      | Inr t' \<Rightarrow> Inr (num_fail (global_stats t), t'))"

definition add_stats :: "test_stats \<Rightarrow> test_stats \<Rightarrow> test_stats" where
  "add_stats a b = \<lparr>num_pass = num_pass a + num_pass b, num_fail = num_fail a + num_fail b,
     num_total = num_total a + num_total b\<rparr>"

text \<open>A test function reads and changes memory of its own, \<open>'g\<close>, and may not return (\<open>None\<close>).\<close>

definition test ::
  "string \<Rightarrow> ('g \<times> testlib \<Rightarrow> (ub + (int \<times> 'g \<times> testlib)) option) \<Rightarrow> 'g \<times> testlib \<Rightarrow>
   (ub + (int \<times> 'g \<times> testlib)) option" where
  "test test_name test_func gt =
     (case say ''- Test: %.*s \<newline>'' [SNum TEST_LEN, Str test_name] ((snd gt)\<lparr>stats := zero_stats\<rparr>) of
        Inl e \<Rightarrow> Some (Inl e)
      | Inr t1 \<Rightarrow>
          (case test_func (fst gt, t1) of
             None \<Rightarrow> None
           | Some (Inl e) \<Rightarrow> Some (Inl e)
           | Some (Inr (result, g, t2)) \<Rightarrow>
               (case say ''Summary: pass %d, fail %d, total %d\<newline>\<newline>'' (stats_args (stats t2)) t2 of
                  Inl e \<Rightarrow> Some (Inl e)
                | Inr t3 \<Rightarrow> Some (Inr (result, g, t3\<lparr>global_stats := add_stats (global_stats t3) (stats t3)\<rparr>)))))"

text \<open>The terminating NUL does not fit exactly when the length is that of the array.\<close>

lemma create_dashes_overflows:
  "length buf = DASH_LEN \<Longrightarrow> create_dashes len buf = Inl OutOfBounds \<longleftrightarrow> len = DASH_LEN"
  by (auto simp: create_dashes_def poke_def)

section \<open>What a suite of assertions counts\<close>

datatype assertion =
    Equals int int string
  | Not_equals int int string
  | Is_true int string
  | Is_false int string
  | Is_null bool string
  | Is_not_null bool string
  | Strings_equal string string int string
  | Strings_not_equal string string int string

fun do_assert :: "assertion \<Rightarrow> testlib \<Rightarrow> ub + (int \<times> testlib)" where
  "do_assert (Equals r e n) = assert_equals r e n"
| "do_assert (Not_equals r e n) = assert_not_equals r e n"
| "do_assert (Is_true r n) = assert_true r n"
| "do_assert (Is_false r n) = assert_false r n"
| "do_assert (Is_null p n) = assert_null p n"
| "do_assert (Is_not_null p n) = assert_not_null p n"
| "do_assert (Strings_equal r e len n) = assert_string_equals r e len n"
| "do_assert (Strings_not_equal r e len n) = assert_string_not_equals r e len n"

fun holds :: "assertion \<Rightarrow> bool" where
  "holds (Equals r e n) = (r = e)"
| "holds (Not_equals r e n) = (r \<noteq> e)"
| "holds (Is_true r n) = (r \<noteq> 0)"
| "holds (Is_false r n) = (r = 0)"
| "holds (Is_null p n) = p"
| "holds (Is_not_null p n) = (\<not> p)"
| "holds (Strings_equal r e len n) = (take (size_of_int len) r = take (size_of_int len) e)"
| "holds (Strings_not_equal r e len n) = (take (size_of_int len) r \<noteq> take (size_of_int len) e)"

text \<open>The assertions whose message has arguments of the wrong type.\<close>

fun mistyped :: "assertion \<Rightarrow> bool" where
  "mistyped (Not_equals r e n) = (r \<noteq> e)"
| "mistyped (Strings_not_equal r e len n) = (take (size_of_int len) r = take (size_of_int len) e)"
| "mistyped _ = False"

fun run_asserts :: "assertion list \<Rightarrow> testlib \<Rightarrow> ub + (int \<times> testlib)" where
  "run_asserts [] t = Inr (0, t)"
| "run_asserts (a # as) t =
     (case do_assert a t of Inl e \<Rightarrow> Inl e | Inr (_, t') \<Rightarrow> run_asserts as t')"

text \<open>A straight-line test function: each statement computes, with an effect on the memory of the
  test, an assertion, which is then made; the result of the assertion is dropped.\<close>

type_synonym 'g statement = "'g \<Rightarrow> (ub + ('g \<times> assertion)) option"

fun run_statements :: "'g statement list \<Rightarrow> 'g \<times> testlib \<Rightarrow> (ub + (int \<times> 'g \<times> testlib)) option" where
  "run_statements [] (g, t) = Some (Inr (0, g, t))"
| "run_statements (f # fs) (g, t) =
     (case f g of
        None \<Rightarrow> None
      | Some (Inl e) \<Rightarrow> Some (Inl e)
      | Some (Inr (g', a)) \<Rightarrow>
          (case do_assert a t of Inl e \<Rightarrow> Some (Inl e) | Inr (_, t') \<Rightarrow> run_statements fs (g', t')))"

fun run_suite :: "(string \<times> 'g statement list) list \<Rightarrow> 'g \<times> testlib \<Rightarrow> (ub + ('g \<times> testlib)) option" where
  "run_suite [] gt = Some (Inr gt)"
| "run_suite ((n, fs) # ts) gt =
     (case test n (run_statements fs) gt of
        None \<Rightarrow> None | Some (Inl e) \<Rightarrow> Some (Inl e) | Some (Inr (_, gt')) \<Rightarrow> run_suite ts gt')"

text \<open>The assertions a test makes, without the library.\<close>

fun asserted :: "'g statement list \<Rightarrow> 'g \<Rightarrow> (ub + ('g \<times> assertion list)) option" where
  "asserted [] g = Some (Inr (g, []))"
| "asserted (f # fs) g =
     (case f g of
        None \<Rightarrow> None
      | Some (Inl e) \<Rightarrow> Some (Inl e)
      | Some (Inr (g', a)) \<Rightarrow>
          (case asserted fs g' of
             None \<Rightarrow> None
           | Some (Inl e) \<Rightarrow> Some (Inl e)
           | Some (Inr (g'', as)) \<Rightarrow> Some (Inr (g'', a # as))))"

definition tally :: "assertion list \<Rightarrow> test_stats" where
  "tally as = \<lparr>num_pass = int (length (filter holds as)), num_fail = int (length (filter (\<lambda>a. \<not> holds a) as)),
     num_total = int (length as)\<rparr>"

lemma add_stats_simps [simp]:
  "add_stats (add_stats a b) c = add_stats a (add_stats b c)"
  "add_stats zero_stats s = s" "add_stats s (tally []) = s"
  "add_stats (tally as) (tally bs) = tally (as @ bs)"
  by (simp_all add: add_stats_def zero_stats_def tally_def)

definition silent :: "testlib \<Rightarrow> bool" where
  "silent t \<longleftrightarrow> file_fd (logger t) = - 1"

lemma say_ok:
  assumes "fits (parse_format fmt) args \<or> silent t"
  shows "\<exists>lg o'. say fmt args t = Inr (t\<lparr>logger := lg, io := o'\<rparr>) \<and> file_fd lg = file_fd (logger t)"
proof (cases "silent t")
  case True
  then show ?thesis
    by (intro exI [of _ "logger t"]) (auto simp: say_def verbatim_def silent_def)
next
  case False
  then obtain s where "format_text (\<lambda>_. 0) fmt args = Some s"
    using assms well_typed_text [of ERROR fmt args "\<lambda>_. 0"] by (auto simp: well_typed_def)
  then show ?thesis
    using False by (intro exI [of _ "(logger t)\<lparr>logger_buf := take 255 s\<rparr>"])
      (auto simp: say_def verbatim_def silent_def MAX_BUF_LEN_def Let_def)
qed

lemma say_bad:
  assumes "\<not> fits (parse_format fmt) args" and "\<not> silent t"
  shows "say fmt args t = Inl Bad_argument"
proof -
  have "format_text (\<lambda>_. 0) fmt args = None"
    using assms(1) render_fits [of "\<lambda>_. 0" "parse_format fmt" args] by (auto simp: format_text_def)
  then show ?thesis using assms(2) by (simp add: say_def verbatim_def silent_def)
qed

text \<open>What running an assertion or a list of them leaves: the counters and the logger's state.\<close>

definition counted :: "assertion list \<Rightarrow> testlib \<Rightarrow> testlib \<Rightarrow> bool" where
  "counted as t t' \<longleftrightarrow> stats t' = add_stats (stats t) (tally as) \<and> global_stats t' = global_stats t \<and>
     silent t' = silent t"

lemma conclude_counts:
  assumes "ok = holds a" and "fits (parse_format (fst (if ok then p else f))) (snd (if ok then p else f)) = (\<not> mistyped a)"
  shows "if silent t \<or> \<not> mistyped a then \<exists>t'. conclude ok p f r t = Inr (r, t') \<and> counted [a] t t'
     else conclude ok p f r t = Inl Bad_argument"
proof (cases "silent t \<or> \<not> mistyped a")
  case True
  then obtain lg o' where "say (fst (if ok then p else f)) (snd (if ok then p else f)) t = Inr (t\<lparr>logger := lg, io := o'\<rparr>)"
    "file_fd lg = file_fd (logger t)"
    using say_ok assms(2) by metis
  then show ?thesis
    using True assms(1)
    by (cases ok) (auto simp: conclude_def counted_def pass_def fail_def silent_def add_stats_def tally_def)
next
  case False
  then have "say (fst (if ok then p else f)) (snd (if ok then p else f)) t = Inl Bad_argument"
    using say_bad assms(2) by metis
  then show ?thesis using False by (cases ok) (simp_all add: conclude_def)
qed


lemmas assertion_defs = assert_equals_def assert_not_equals_def assert_true_def assert_false_def
  assert_null_def assert_not_null_def assert_string_equals_def assert_string_not_equals_def

lemma conclude_done:
  assumes "ok = holds a" and "fits (parse_format (fst (if ok then p else f))) (snd (if ok then p else f)) = (\<not> mistyped a)"
  shows "if silent t \<or> \<not> mistyped a then \<exists>r' t'. conclude ok p f r t = Inr (r', t') \<and> counted [a] t t'
     else conclude ok p f r t = Inl Bad_argument"
  using conclude_counts [OF assms, of t r] by (auto split: if_splits)

lemma do_assert_counts:
  "if silent t \<or> \<not> mistyped a then \<exists>r t'. do_assert a t = Inr (r, t') \<and> counted [a] t t'
   else do_assert a t = Inl Bad_argument"
proof (cases a)
  case (Equals r e n)
  show ?thesis
    unfolding Equals do_assert.simps assertion_defs Let_def
    by (rule conclude_done) (simp_all add: TAB_def)
next
  case (Not_equals r e n)
  show ?thesis
    unfolding Not_equals do_assert.simps assertion_defs Let_def
    by (rule conclude_done) (simp_all add: TAB_def)
next
  case (Is_true r n)
  show ?thesis
    unfolding Is_true do_assert.simps assertion_defs Let_def
    by (rule conclude_done) (simp_all add: TAB_def)
next
  case (Is_false r n)
  show ?thesis
    unfolding Is_false do_assert.simps assertion_defs Let_def
    by (rule conclude_done) (simp_all add: TAB_def)
next
  case (Is_null p n)
  show ?thesis
    unfolding Is_null do_assert.simps assertion_defs Let_def
    by (rule conclude_done) (simp_all add: TAB_def)
next
  case (Is_not_null p n)
  show ?thesis
    unfolding Is_not_null do_assert.simps assertion_defs Let_def
    by (rule conclude_done) (simp_all add: TAB_def)
next
  case (Strings_equal r e len n)
  show ?thesis
    unfolding Strings_equal do_assert.simps assertion_defs Let_def
    by (rule conclude_done) (simp_all add: TAB_def strncmp_zero)
next
  case (Strings_not_equal r e len n)
  show ?thesis
    unfolding Strings_not_equal do_assert.simps assertion_defs Let_def
    by (rule conclude_done) (simp_all add: TAB_def strncmp_zero)
qed

lemma counted_trans: "counted as t t1 \<Longrightarrow> counted bs t1 t2 \<Longrightarrow> counted (as @ bs) t t2"
  by (simp add: counted_def)

lemma run_asserts_counts:
  "if silent t \<or> (\<forall>a \<in> set as. \<not> mistyped a)
   then \<exists>t'. run_asserts as t = Inr (0, t') \<and> counted as t t'
   else run_asserts as t = Inl Bad_argument"
proof (induction as arbitrary: t)
  case Nil
  show ?case by (simp add: counted_def)
next
  case (Cons a as)
  show ?case
  proof (cases "silent t \<or> \<not> mistyped a")
    case True
    then obtain r t1 where t1: "do_assert a t = Inr (r, t1)" "counted [a] t t1"
      using do_assert_counts [of t a] by auto
    then have "silent t1 = silent t" by (simp add: counted_def)
    then show ?thesis
      using Cons.IH [of t1] t1 True counted_trans [OF t1(2), of as] by (auto split: if_splits)
  next
    case False
    then show ?thesis using do_assert_counts [of t a] by auto
  qed
qed

lemma fits_summaries:
  "fits (parse_format ''- Test: %.*s \<newline>'') [SNum k, Str s]"
  "fits (parse_format ''Summary: pass %d, fail %d, total %d\<newline>\<newline>'') (stats_args st)"
  "fits (parse_format ''Global Summary: pass %d, fail %d, total %d\<newline>'') (stats_args st)"
  by (simp_all add: stats_args_def)

lemma run_statements_asserted:
  assumes "asserted fs g = Some (Inr (g', as))"
  shows "run_statements fs (g, t) =
     Some (case run_asserts as t of Inl e \<Rightarrow> Inl e | Inr (r, t') \<Rightarrow> Inr (r, g', t'))"
  using assms
proof (induction fs arbitrary: g t as)
  case (Cons f fs)
  then obtain g1 a as' where "f g = Some (Inr (g1, a))" "asserted fs g1 = Some (Inr (g', as'))" "as = a # as'"
    by (auto split: option.splits sum.splits)
  then show ?case using Cons.IH [of g1 as'] by (auto split: sum.splits)
qed simp

lemma asserted_append:
  "asserted (fs @ gs) g =
     (case asserted fs g of
        None \<Rightarrow> None | Some (Inl e) \<Rightarrow> Some (Inl e)
      | Some (Inr (g', as)) \<Rightarrow>
          (case asserted gs g' of
             None \<Rightarrow> None | Some (Inl e) \<Rightarrow> Some (Inl e)
           | Some (Inr (g'', bs)) \<Rightarrow> Some (Inr (g'', as @ bs))))"
  by (induction fs arbitrary: g) (auto split: option.splits sum.splits)

lemma test_counts:
  assumes "asserted fs g = Some (Inr (g', as))"
  shows "if silent t \<or> (\<forall>a \<in> set as. \<not> mistyped a)
   then \<exists>t'. test n (run_statements fs) (g, t) = Some (Inr (0, g', t')) \<and> silent t' = silent t \<and>
     stats t' = tally as \<and> global_stats t' = add_stats (global_stats t) (tally as)
   else test n (run_statements fs) (g, t) = Some (Inl Bad_argument)"
proof -
  obtain lg o' where one: "say ''- Test: %.*s \<newline>'' [SNum TEST_LEN, Str n] (t\<lparr>stats := zero_stats\<rparr>) =
      Inr (t\<lparr>stats := zero_stats, logger := lg, io := o'\<rparr>)" "file_fd lg = file_fd (logger t)"
    using say_ok [OF disjI1, OF fits_summaries(1), of TEST_LEN n "t\<lparr>stats := zero_stats\<rparr>"] by auto
  let ?t1 = "t\<lparr>stats := zero_stats, logger := lg, io := o'\<rparr>"
  have silent1: "silent ?t1 = silent t" using one(2) by (simp add: silent_def)
  note body = run_statements_asserted [OF assms, of ?t1]
  show ?thesis
  proof (cases "silent t \<or> (\<forall>a \<in> set as. \<not> mistyped a)")
    case True
    then obtain t2 where t2: "run_asserts as ?t1 = Inr (0, t2)" "counted as ?t1 t2"
      using run_asserts_counts [of ?t1 as] silent1 by auto
    obtain lg2 o2 where "say ''Summary: pass %d, fail %d, total %d\<newline>\<newline>'' (stats_args (stats t2)) t2 =
        Inr (t2\<lparr>logger := lg2, io := o2\<rparr>)" "file_fd lg2 = file_fd (logger t2)"
      using say_ok [OF disjI1, OF fits_summaries(2)] by blast
    then show ?thesis
      using True t2 silent1 one(1) body by (auto simp: test_def counted_def silent_def)
  next
    case False
    then have "run_asserts as ?t1 = Inl Bad_argument"
      using run_asserts_counts [of ?t1 as] silent1 by auto
    then show ?thesis using False one(1) body by (auto simp: test_def)
  qed
qed

lemma run_suite_counts:
  assumes "asserted (concat (map snd ts)) g = Some (Inr (g', as))"
  shows "if silent t \<or> (\<forall>a \<in> set as. \<not> mistyped a)
   then \<exists>t'. run_suite ts (g, t) = Some (Inr (g', t')) \<and> silent t' = silent t \<and>
     global_stats t' = add_stats (global_stats t) (tally as)
   else run_suite ts (g, t) = Some (Inl Bad_argument)"
  using assms
proof (induction ts arbitrary: g t as)
  case (Cons x ts)
  obtain n fs where x: "x = (n, fs)" by (cases x)
  obtain g1 bs cs where parts: "asserted fs g = Some (Inr (g1, bs))"
    "asserted (concat (map snd ts)) g1 = Some (Inr (g', cs))" "as = bs @ cs"
    using Cons.prems x by (auto simp: asserted_append split: option.splits sum.splits)
  show ?case
  proof (cases "silent t \<or> (\<forall>a \<in> set bs. \<not> mistyped a)")
    case True
    then obtain t1 where t1: "test n (run_statements fs) (g, t) = Some (Inr (0, g1, t1))" "silent t1 = silent t"
      "global_stats t1 = add_stats (global_stats t) (tally bs)"
      using test_counts [OF parts(1), of t n] by auto
    then show ?thesis using Cons.IH [OF parts(2), of t1] True x parts(3) by (auto split: if_splits)
  next
    case False
    then show ?thesis using test_counts [OF parts(1), of t n] x parts(3) by auto
  qed
qed simp

section \<open>Properties\<close>

lemma shutdown_returns: "\<exists>t'. testlib_shutdown t = Inr (num_fail (global_stats t), t')"
  using say_ok [OF disjI1, OF fits_summaries(3), of "global_stats t" t] by (auto simp: testlib_shutdown_def)

lemma say_stats: "say fmt args t = Inr t' \<Longrightarrow> global_stats t' = global_stats t \<and> stats t' = stats t"
  by (auto simp: say_def split: sum.splits prod.splits)

lemma shutdown_stats: "testlib_shutdown t = Inr (n, t') \<Longrightarrow> global_stats t' = global_stats t"
  using say_stats by (fastforce simp: testlib_shutdown_def split: sum.splits)

text \<open>The library starts on every suite name for which the logger starts and the line of dashes fits.\<close>

lemma testlib_init_returns:
  assumes "new_Logger k clock1 clock2 raw ''Test Logger'' suite_name DEBUG (start, fs, io t) = Inr (lg, start', fs', io')"
    and "12 + length suite_name < length (dashes t)" and "12 + length suite_name \<le> DASH_LEN"
  shows "\<exists>t' st. testlib_init k clock1 clock2 raw suite_name t (start, fs) = Inr (0, t', st) \<and>
     global_stats t' = global_stats t"
proof -
  let ?n = "12 + length suite_name"
  obtain ds where ds: "create_dashes ?n (dashes t) = Inr (0, ds)"
    using assms(2,3) by (auto simp: create_dashes_def poke_def)
  let ?t0 = "t\<lparr>test_suite_name := suite_name, logger := lg, io := io', dashes := ds\<rparr>"
  have fit: "fits (parse_format ''%s\<newline>'') [Str d]" "fits (parse_format ''Test Suite: %.*s\<newline>'') [SNum SUITE_LEN, Str suite_name]" for d
    by simp_all
  obtain t1 where t1: "say ''%s\<newline>'' [Str ds] ?t0 = Inr t1" using say_ok [OF disjI1, OF fit(1)] by blast
  obtain t2 where t2: "say ''Test Suite: %.*s\<newline>'' [SNum SUITE_LEN, Str suite_name] t1 = Inr t2"
    using say_ok [OF disjI1, OF fit(2)] by blast
  obtain t3 where t3: "say ''%s\<newline>'' [Str (dashes t2)] t2 = Inr t3" using say_ok [OF disjI1, OF fit(1)] by blast
  have "length ''Test Suite: '' + length suite_name = ?n" by simp
  then have "testlib_init k clock1 clock2 raw suite_name t (start, fs) = Inr (0, t3, start', fs')"
    unfolding testlib_init_def fst_conv snd_conv using assms(1) ds t1 t2 t3 by (simp only: sum.case prod.case)
  then show ?thesis using say_stats [OF t1] say_stats [OF t2] say_stats [OF t3] by simp
qed

lemma suite_outcome:
  assumes "global_stats t = zero_stats" and "asserted (concat (map snd ts)) g = Some (Inr (g', as))"
    and "file_fd (logger t) = - 1 \<or> (\<forall>a \<in> set as. \<not> mistyped a)"
  shows "\<exists>t' t''. run_suite ts (g, t) = Some (Inr (g', t')) \<and> global_stats t' = tally as \<and>
     testlib_shutdown t' = Inr (int (length (filter (\<lambda>a. \<not> holds a) as)), t'')"
proof -
  obtain t' where t': "run_suite ts (g, t) = Some (Inr (g', t'))" "global_stats t' = tally as"
    using run_suite_counts [OF assms(2), of t] assms(1,3) by (auto simp: silent_def)
  obtain t'' where "testlib_shutdown t' = Inr (num_fail (global_stats t'), t'')"
    using shutdown_returns by blast
  then show ?thesis using t' by (intro exI [of _ t'] exI [of _ t'']) (simp add: tally_def)
qed

text \<open>A suite of tests started with cleared counters either counts exactly its assertions that
  hold as passed and the others as failed, and the shutdown returns the number that
  failed, or it stops at a message with an argument of the wrong type: the latter exactly
  when the log file is open and the suite has an \<open>assert_not_equals\<close> that passes or an
  \<open>assert_string_not_equals\<close> that fails.\<close>

lemma suite_counts:
  assumes "global_stats t = zero_stats" and "asserted (concat (map snd ts)) g = Some (Inr (g', as))"
  shows "\<exists>r. run_suite ts (g, t) = Some r \<and>
     (case r of
       Inl e \<Rightarrow> e = Bad_argument \<and> file_fd (logger t) \<noteq> - 1 \<and> (\<exists>a \<in> set as. mistyped a)
     | Inr (_, t') \<Rightarrow> (file_fd (logger t) = - 1 \<or> (\<forall>a \<in> set as. \<not> mistyped a)) \<and>
         num_pass (global_stats t') = int (length (filter holds as)) \<and>
         num_total (global_stats t') = num_pass (global_stats t') + num_fail (global_stats t') \<and>
         (\<exists>t''. testlib_shutdown t' = Inr (int (length (filter (\<lambda>a. \<not> holds a) as)), t'')))"
proof (cases "file_fd (logger t) = - 1 \<or> (\<forall>a \<in> set as. \<not> mistyped a)")
  case True
  have "length (filter holds as) + length (filter (\<lambda>a. \<not> holds a) as) = length as"
    by (rule sum_length_filter_compl)
  then show ?thesis
    using suite_outcome [OF assms True] True by (auto simp: tally_def)
next
  case False
  then show ?thesis using run_suite_counts [OF assms(2), of t] by (auto simp: silent_def)
qed

definition plainly :: "assertion \<Rightarrow> unit statement" where
  "plainly a g = Some (Inr (g, a))"

lemma suite_counts_witness:
  "let t = \<lparr>global_stats = zero_stats, stats = zero_stats, test_suite_name = ''config'', dashes = [],
        logger = \<lparr>logger_name = ''T'', filename = [], file_fd = 3, log_level = DEBUG, logger_buf = []\<rparr>,
        io = quiet\<rparr> in
   run_suite [(''different'', map plainly [Equals 1 1 ''one'', Not_equals 1 2 ''one is not two''])] ((), t) =
     Some (Inl Bad_argument) \<and>
   (\<exists>t'. run_suite [(''same'', map plainly [Equals 1 1 ''one'', Is_true 0 ''zero''])] ((), t) = Some (Inr ((), t')) \<and>
      num_pass (global_stats t') = 1 \<and> num_total (global_stats t') = 2)"
proof -
  let ?t = "\<lparr>global_stats = zero_stats, stats = zero_stats, test_suite_name = ''config'', dashes = [],
        logger = \<lparr>logger_name = ''T'', filename = [], file_fd = 3, log_level = DEBUG, logger_buf = []\<rparr>,
        io = quiet\<rparr>"
  have zero: "global_stats ?t = zero_stats" by simp
  let ?bad = "[Equals 1 1 ''one'', Not_equals 1 2 ''one is not two'']"
    and ?good = "[Equals 1 1 ''one'', Is_true 0 ''zero'']"
  have plain: "asserted (concat (map snd [(n, map plainly [a, b])])) () = Some (Inr ((), [a, b]))" for n a b
    by (simp add: plainly_def)
  note counts = suite_counts [OF zero plain]
  have "run_suite [(''different'', map plainly ?bad)] ((), ?t) = Some (Inl Bad_argument)"
    using counts [of "''different''" "Equals 1 1 ''one''" "Not_equals 1 2 ''one is not two''"]
    by (elim exE conjE) (simp split: sum.splits prod.splits del: run_suite.simps)
  moreover obtain t' where t': "run_suite [(''same'', map plainly ?good)] ((), ?t) = Some (Inr ((), t'))"
    "num_pass (global_stats t') = 1" "\<exists>t''. testlib_shutdown t' = Inr (1, t'')"
    "num_total (global_stats t') = num_pass (global_stats t') + num_fail (global_stats t')"
    using counts [of "''same''" "Equals 1 1 ''one''" "Is_true 0 ''zero''"]
    by (elim exE conjE) (simp split: sum.splits prod.splits del: run_suite.simps)
  moreover have "num_fail (global_stats t') = 1"
    using t'(3) shutdown_returns [of t'] by auto
  ultimately show ?thesis
    unfolding Let_def using t' by auto
qed

end
