(* ===== verification/Resfet_Config_Test.thy ===== *)
theory Resfet_Config_Test
  imports Resfet_Libtest Resfet_Config_Spec
begin

text \<open>
  The test program of the configuration parser (test/config/config_test.cpp), run on the
  models of the parser and of the testing library: the globals of the file, its three test
  functions and its \<open>main\<close>.

  \<open>files\<close> maps a name to the contents of the file, \<open>None\<close> when it cannot be opened; the two
  files of the directory are \<open>config_test_ini\<close> and \<open>bad_config_ini\<close>.
\<close>

section \<open>The files\<close>

definition config_test_ini :: string where
  "config_test_ini = ''spaghetti=meatballs\<newline>\<newline>[Section]\<newline>x=512\<newline>please=work\<newline>\<newline>foo=bar\<newline># comment\<newline>\<newline>[OtherSection]\<newline>something=something\<newline>\<newline>pi=314159\<newline>''"

definition bad_config_ini :: string where
  "bad_config_ini = ''a=b\<newline>\<newline>this_config_key_name_is_far_longer_than_sixty_four_characters_and_thus_should_be_rejected_by_the_parser_lets_see_if_thats_what_actually_happens=7\<newline>\<newline>''"

section \<open>The program\<close>

record test_globals =
  config :: config_map
  testBuf :: "char list"
  testInt :: u32

definition zero_globals :: test_globals where
  "zero_globals = \<lparr>config = Map.empty, testBuf = replicate 256 NUL, testInt = 0\<rparr>"

text \<open>\<open>strcmp\<close>; only the sign of a difference is fixed.\<close>

fun strcmp :: "string \<Rightarrow> string \<Rightarrow> int" where
  "strcmp [] [] = 0"
| "strcmp [] (y # ys) = - 1"
| "strcmp (x # xs) [] = 1"
| "strcmp (x # xs) (y # ys) =
     (if x = y then strcmp xs ys else if (of_char x :: nat) < of_char y then - 1 else 1)"

lemma strcmp_zero: "strcmp a b = 0 \<longleftrightarrow> a = b"
  by (induction a b rule: strcmp.induct) simp_all

definition read_from :: "(string \<Rightarrow> string option) \<Rightarrow> string \<Rightarrow> int \<Rightarrow> string \<Rightarrow> test_globals statement" where
  "read_from files file expected name g =
     (case readFrom (files file) of
        None \<Rightarrow> None
      | Some (Inl e) \<Rightarrow> Some (Inl e)
      | Some (Inr (r, m)) \<Rightarrow> Some (Inr (g\<lparr>config := m\<rparr>, Equals (uint r) expected name)))"

definition get_string :: "string \<Rightarrow> string \<Rightarrow> int \<Rightarrow> string \<Rightarrow> test_globals statement" where
  "get_string sec key expected name g =
     (case getString (config g) sec key (testBuf g) 128 of
        (r, buf) \<Rightarrow> Some (Inr (g\<lparr>testBuf := buf\<rparr>, Equals (uint r) expected name)))"

definition get_int :: "string \<Rightarrow> string \<Rightarrow> int \<Rightarrow> string \<Rightarrow> test_globals statement" where
  "get_int sec key expected name g =
     (case getInt (config g) sec key (testInt g) of
        (r, n) \<Rightarrow> Some (Inr (g\<lparr>testInt := n\<rparr>, Equals (uint r) expected name)))"

definition check_int :: "int \<Rightarrow> string \<Rightarrow> test_globals statement" where
  "check_int expected name g = Some (Inr (g, Equals (sint (testInt g)) expected name))"

definition check_string :: "string \<Rightarrow> string \<Rightarrow> test_globals statement" where
  "check_string expected name g =
     Some (Inr (g, Strings_equal (c_str (testBuf g)) expected (int MAX_CONFIG_LENGTH) name))"

definition check_strcmp :: "string \<Rightarrow> string \<Rightarrow> test_globals statement" where
  "check_strcmp expected name g = Some (Inr (g, Equals (strcmp (c_str (testBuf g)) expected) 0 name))"

definition test_bad_config :: "(string \<Rightarrow> string option) \<Rightarrow> test_globals statement list" where
  "test_bad_config files =
     [read_from files ''./bad_config.ini'' 1 ''Read from bad_config.ini'',
      get_string [] ''a'' 1 ''Can't read from bad_config.ini'']"

definition test_get_string :: "(string \<Rightarrow> string option) \<Rightarrow> test_globals statement list" where
  "test_get_string files =
     [read_from files ''./config_test.ini'' 0 ''Read from config_test.ini'',
      get_string [] ''spaghetti'' 0 ''Get spaghetti key'',
      check_string ''meatballs'' ''Check spaghetti value'',
      get_string ''Section'' ''foo'' 0 ''Get key foo from Section'',
      check_strcmp ''bar'' ''Check foo value'',
      get_string ''OtherSection'' ''something'' 0 ''Get key something from OtherSection'',
      check_string ''something'' ''Check something value'']"

definition test_get_int :: "test_globals statement list" where
  "test_get_int =
     [get_int ''Section'' ''x'' 0 ''Get key x from Section'',
      check_int 512 ''Check x value'',
      get_int ''OtherSection'' ''pi'' 0 ''Get key pi from OtherSection'',
      check_int 314159 ''Check pi value'']"

definition config_tests :: "(string \<Rightarrow> string option) \<Rightarrow> (string \<times> test_globals statement list) list" where
  "config_tests files =
     [(''readFrom'', test_bad_config files), (''Get String'', test_get_string files), (''Get Int'', test_get_int)]"

text \<open>The static variables of the library before \<open>main\<close>; the logger is a null pointer until
  \<open>testlib_init\<close> makes one, so its fields here are never read.\<close>

definition zero_testlib :: "streams \<Rightarrow> testlib" where
  "zero_testlib out =
     \<lparr>global_stats = zero_stats, stats = zero_stats, test_suite_name = [], dashes = replicate DASH_LEN NUL,
      logger = \<lparr>logger_name = [], filename = [], file_fd = - 1, log_level = SILENT, logger_buf = []\<rparr>, io = out\<rparr>"

definition config_test_main ::
  "'fs kernel \<Rightarrow> timespec \<times> tm \<Rightarrow> timespec \<times> tm \<Rightarrow> string \<Rightarrow> (string \<Rightarrow> string option) \<Rightarrow>
   timestamp_t \<times> 'fs \<times> streams \<Rightarrow> (ub + (int \<times> testlib)) option" where
  "config_test_main k clock1 clock2 raw files st =
     (case testlib_init k clock1 clock2 raw ''Config Parser'' (zero_testlib (snd (snd st))) (fst st, fst (snd st)) of
        Inl e \<Rightarrow> Some (Inl e)
      | Inr (_, t, _) \<Rightarrow>
          (case run_suite (config_tests files) (zero_globals, t) of
             None \<Rightarrow> None
           | Some (Inl e) \<Rightarrow> Some (Inl e)
           | Some (Inr (_, t')) \<Rightarrow> Some (testlib_shutdown t')))"

section \<open>What the parser makes of the files\<close>

lemmas parse_defs = newline_def NUL_def MAX_LINE_LENGTH_def MAX_CONFIG_LENGTH_def skipped_def
  parse_line_def match_header_def match_key_value_def scan_set_def store_token_def is_space_def c_str_def Let_def

lemma bad_config_rejected: "readFrom (Some bad_config_ini) = Some (Inr (1, Map.empty))"
  unfolding readFrom_def bad_config_ini_def
  by (simp add: readFrom_loop_lines parse_defs)

definition config_test_map :: config_map where
  "config_test_map =
     push_value ''OtherSection'' ''pi'' ''314159''
       (push_value ''OtherSection'' ''something'' ''something''
         (push_value ''Section'' ''foo'' ''bar''
           (push_value ''Section'' ''please'' ''work''
             (push_value ''Section'' ''x'' ''512''
               (push_value [] ''spaghetti'' ''meatballs'' Map.empty)))))"

lemma config_test_read: "readFrom (Some config_test_ini) = Some (Inr (0, config_test_map))"
  unfolding readFrom_def config_test_ini_def config_test_map_def
  by (simp add: readFrom_loop_lines parse_defs)

section \<open>The outcome\<close>

text \<open>The assertions the program makes, in order.\<close>

definition config_asserts :: "assertion list" where
  "config_asserts =
     [Equals 1 1 ''Read from bad_config.ini'', Equals 1 1 ''Can't read from bad_config.ini'',
      Equals 0 0 ''Read from config_test.ini'', Equals 0 0 ''Get spaghetti key'',
      Strings_equal ''meatballs'' ''meatballs'' 64 ''Check spaghetti value'',
      Equals 0 0 ''Get key foo from Section'', Equals 0 0 ''Check foo value'',
      Equals 0 0 ''Get key something from OtherSection'',
      Strings_equal ''something'' ''something'' 64 ''Check something value'',
      Equals 0 0 ''Get key x from Section'', Equals 512 512 ''Check x value'',
      Equals 0 0 ''Get key pi from OtherSection'', Equals 314159 314159 ''Check pi value'']"

lemma getString_found:
  "values_of m (sec, key) = v # vs \<Longrightarrow> config_wf m \<Longrightarrow> getString m sec key dest n = (0, strncpy dest v n)"
  using isPresent_values [of m sec key] by (auto simp: getString_def first_value_def values_of_def split: option.splits)

lemma getInt_found:
  "values_of m (sec, key) = v # vs \<Longrightarrow> config_wf m \<Longrightarrow> getInt m sec key dest = (0, word_of_int (atoi v))"
  using isPresent_values [of m sec key] by (auto simp: getInt_def first_value_def values_of_def split: option.splits)

lemma strncpy_c_str: "NUL \<notin> set v \<Longrightarrow> length v < n \<Longrightarrow> c_str (strncpy dest v n) = v"
  by (cases "n - length v") (simp_all add: strncpy_def)

lemma config_test_values:
  "config_wf config_test_map"
  "values_of config_test_map ([], ''spaghetti'') = [''meatballs'']"
  "values_of config_test_map (''Section'', ''foo'') = [''bar'']"
  "values_of config_test_map (''Section'', ''x'') = [''512'']"
  "values_of config_test_map (''OtherSection'', ''something'') = [''something'']"
  "values_of config_test_map (''OtherSection'', ''pi'') = [''314159'']"
  by (simp_all add: config_test_map_def config_wf_push)

lemma atoi_values: "atoi ''512'' = 512" "atoi ''314159'' = 314159"
  by (simp_all add: atoi_def is_space_def digits_value_def is_digit_def)

lemma config_asserted:
  assumes "files ''./bad_config.ini'' = Some bad_config_ini" and "files ''./config_test.ini'' = Some config_test_ini"
  shows "\<exists>g. asserted (concat (map snd (config_tests files))) zero_globals = Some (Inr (g, config_asserts))"
proof -
  have absent: "getString Map.empty [] ''a'' dest n = (1, dest)" for dest n
    by (simp add: getString_def isPresent_def)
  have chars: "c_str (strncpy dest ''meatballs'' 128) = ''meatballs''" "c_str (strncpy dest ''bar'' 128) = ''bar''"
    "c_str (strncpy dest ''something'' 128) = ''something''" for dest
    by (rule strncpy_c_str; simp add: NUL_def)+
  note found = config_test_values(2-) [THEN getString_found, OF config_test_values(1)]
    config_test_values(2-) [THEN getInt_found, OF config_test_values(1)]
  show ?thesis
    by (simp add: config_tests_def test_bad_config_def test_get_string_def test_get_int_def config_asserts_def
        read_from_def get_string_def get_int_def check_int_def check_string_def check_strcmp_def
        assms bad_config_rejected config_test_read absent found chars atoi_values MAX_CONFIG_LENGTH_def)
qed

text \<open>C20: the repository's own test of the parser: run on the two files of its directory, the program
  returns, makes thirteen assertions, all of which pass, and exits with 0, whatever the
  kernel says to its log file and at whatever time.\<close>

theorem config_test_passes:
  assumes "kernel_laws k" and "tm_ok date1" and "tm_ok date2"
    and "files ''./bad_config.ini'' = Some bad_config_ini" and "files ''./config_test.ini'' = Some config_test_ini"
  shows "\<exists>t. config_test_main k (now1, date1) (now2, date2) raw files (start, fs, out) = Some (Inr (0, t)) \<and>
     num_pass (global_stats t) = 13 \<and> num_total (global_stats t) = 13"
proof -
  have no_slash: "CHR ''/'' \<notin> set ''Config Parser''" by simp
  obtain lg start' fs' io' where lg: "new_Logger k (now1, date1) (now2, date2) raw ''Test Logger'' ''Config Parser'' DEBUG
      (start, fs, out) = Inr (lg, start', fs', io')"
    using new_Logger_cases [OF assms(1-3) no_slash, where ?now1.0 = now1 and ?now2.0 = now2 and raw = raw and
        nm = "''Test Logger''" and lv = DEBUG and start = start and fs = fs and io = out]
    by (auto split: sum.splits)
  obtain t st where init: "testlib_init k (now1, date1) (now2, date2) raw ''Config Parser'' (zero_testlib out) (start, fs) =
      Inr (0, t, st)" "global_stats t = zero_stats"
    using testlib_init_returns [of k "(now1, date1)" "(now2, date2)" raw "''Config Parser''" start fs "zero_testlib out"] lg
    by (auto simp: zero_testlib_def DASH_LEN_def)
  obtain g where g: "asserted (concat (map snd (config_tests files))) zero_globals = Some (Inr (g, config_asserts))"
    using config_asserted [OF assms(4,5)] by blast
  have all: "\<forall>a \<in> set config_asserts. \<not> mistyped a" "filter (\<lambda>a. \<not> holds a) config_asserts = []"
    "length (filter holds config_asserts) = 13" "length config_asserts = 13"
    by (simp_all add: config_asserts_def)
  obtain t' t'' where "run_suite (config_tests files) (zero_globals, t) = Some (Inr (g, t'))"
    "global_stats t' = tally config_asserts" "testlib_shutdown t' = Inr (0, t'')"
    using suite_outcome [OF init(2) g] all by auto
  moreover have "global_stats t'' = global_stats t'"
    using shutdown_stats calculation(3) by blast
  ultimately show ?thesis
    using init(1) all by (simp add: config_test_main_def tally_def)
qed

text \<open>The files as the test finds them.\<close>

definition test_files :: "string \<Rightarrow> string option" where
  "test_files name =
     (if name = ''./bad_config.ini'' then Some bad_config_ini
      else if name = ''./config_test.ini'' then Some config_test_ini else None)"

theorem config_test_passes_witness:
  "let d = \<lparr>tm_year = 119, tm_mon = 8, tm_mday = 17, tm_hour = 9, tm_min = 5, tm_sec = 0\<rparr>;
       now = \<lparr>tv_sec = 1568711100, tv_nsec = 0\<rparr> in
   \<exists>t. config_test_main set_kernel (now, d) (now, d) [] test_files (0, {}, quiet) = Some (Inr (0, t)) \<and>
     num_pass (global_stats t) = 13"
proof -
  let ?d = "\<lparr>tm_year = 119, tm_mon = 8, tm_mday = 17, tm_hour = 9, tm_min = 5, tm_sec = 0\<rparr>"
  have "tm_ok ?d" by (simp add: tm_ok_def)
  moreover have "test_files ''./bad_config.ini'' = Some bad_config_ini" "test_files ''./config_test.ini'' = Some config_test_ini"
    by (simp_all add: test_files_def)
  ultimately show ?thesis
    unfolding Let_def using config_test_passes [OF set_kernel_laws] by blast
qed

end
