(* ===== verification/Resfet_Udp_Tests.thy ===== *)
theory Resfet_Udp_Tests
  imports Resfet_Packet Resfet_Net Resfet_Config
begin

text \<open>
  The two UDP test programs (test/udp/udp_echo_server.cpp, test/udp/udp_send_test.cpp): the
  server that prints the packets of the sensor threads, and the client that sends letters.

  The results of the socket calls are arguments, as in Resfet_Net: a receive stores at most
  the 1024 bytes of the buffer, and the list of receives ends with a call that blocks. Of
  the printed text the model keeps the numbers. The casts of the buffer to \<open>data_header\<close> and
  \<open>data_item\<close> read the bytes where the fields lie, and a read past the buffer is
  \<open>Inl OutOfBounds\<close>.
\<close>

section \<open>The server\<close>

datatype printed =
    Starting int
  | No_server_socket
  | Unable_to_bind
  | Received_bytes int
  | Error_receiving
  | Header_line u8 u16
  | Data_line u16 u64

definition TEST_RECV_BUF_SIZE :: nat where "TEST_RECV_BUF_SIZE = 1024"

definition peek :: "nat \<Rightarrow> nat \<Rightarrow> u8 list \<Rightarrow> ub + u8 list" where
  "peek off n buf = (if off + n \<le> length buf then Inr (take n (drop off buf)) else Inl OutOfBounds)"

text \<open>The loop over the items: \<open>off\<close> is \<open>recv_ptr - buf\<close>.\<close>

function echo_items :: "nat \<Rightarrow> nat \<Rightarrow> u8 list \<Rightarrow> ub + printed list" where
  "echo_items off num buf =
     (if off < num then
        (case peek off 2 buf of
           Inl e \<Rightarrow> Inl e
         | Inr rb \<Rightarrow>
             (case peek (off + 8) 8 buf of
                Inl e \<Rightarrow> Inl e
              | Inr tb \<Rightarrow>
                  (case echo_items (off + 16) num buf of
                     Inl e \<Rightarrow> Inl e
                   | Inr ls \<Rightarrow> Inr (Data_line (of_le rb) (of_le tb) # ls))))
      else Inr [])"
  by pat_completeness auto
termination by (relation "measure (\<lambda>(off, num, buf). num - off)") auto

declare echo_items.simps [simp del]

definition echo_datagram :: "recv_result \<Rightarrow> u8 list \<Rightarrow> ub + (printed list \<times> u8 list)" where
  "echo_datagram r buf =
     (case r of
        Recv_failed \<Rightarrow> Inr ([Received_bytes (- 1), Error_receiving], buf)
      | Received bs \<Rightarrow>
          (case poke 0 bs buf of
             None \<Rightarrow> Inl OutOfBounds
           | Some buf' \<Rightarrow>
               (case peek 0 4 buf' of
                  Inl e \<Rightarrow> Inl e
                | Inr h \<Rightarrow>
                    (case echo_items 4 (length bs) buf' of
                       Inl e \<Rightarrow> Inl e
                     | Inr ls \<Rightarrow>
                         Inr (Received_bytes (int (length bs)) # Header_line (h ! 0) (of_le (drop 2 h)) # ls, buf')))))"

text \<open>The endless loop, up to the receive that blocks.\<close>

fun echo_loop :: "recv_result list \<Rightarrow> u8 list \<Rightarrow> ub + printed list" where
  "echo_loop [] buf = Inr []"
| "echo_loop (r # rs) buf =
     (case echo_datagram r buf of
        Inl e \<Rightarrow> Inl e
      | Inr (ls, buf') \<Rightarrow> (case echo_loop rs buf' of Inl e \<Rightarrow> Inl e | Inr ms \<Rightarrow> Inr (ls @ ms)))"

text \<open>\<open>main\<close>: \<open>None\<close> for the exit code while it is still running. \<open>mem\<close> is the memory of the buffer.\<close>

definition echo_main ::
  "string list \<Rightarrow> int \<Rightarrow> int \<Rightarrow> recv_result list \<Rightarrow> u8 list \<Rightarrow> ub + (printed list \<times> int option)" where
  "echo_main args fd bound rs mem =
     (let port = (case args of [] \<Rightarrow> 4444 | a # _ \<Rightarrow> atoi a) in
      if fd < 0 then Inr ([Starting port, No_server_socket], Some (- 1))
      else if bound < 0 then Inr ([Starting port, Unable_to_bind], Some (- 1))
      else (case echo_loop rs mem of Inl e \<Rightarrow> Inl e | Inr ls \<Rightarrow> Inr (Starting port # ls, None)))"

section \<open>What the server prints\<close>

lemma echo_items_overlay:
  "16 * length xs \<le> length old \<Longrightarrow>
   echo_items (length pre) (length pre + 16 * length xs) (pre @ overlay xs old @ post) =
     Inr (map (\<lambda>(r, t). Data_line r t) xs)"
proof (induction xs arbitrary: pre old)
  case Nil
  show ?case by (subst echo_items.simps) simp
next
  case (Cons x xs)
  obtain r t where x: "x = (r, t)" by (cases x)
  let ?item = "le_bytes 2 r @ take 6 (drop 2 old) @ le_bytes 8 t"
  let ?buf = "pre @ overlay (x # xs) old @ post"
  have long: "16 \<le> length old" "16 * length xs \<le> length (drop 16 old)" using Cons.prems by simp_all
  have buf: "?buf = (pre @ ?item) @ overlay xs (drop 16 old) @ post" by (simp add: x)
  have "echo_items (length (pre @ ?item)) (length (pre @ ?item) + 16 * length xs) ?buf =
      Inr (map (\<lambda>(r, t). Data_line r t) xs)"
    unfolding buf by (rule Cons.IH [OF long(2)])
  moreover have "length (pre @ ?item) = length pre + 16" using long(1) by simp
  ultimately have rest: "echo_items (length pre + 16) (length pre + 16 * length (x # xs)) ?buf =
      Inr (map (\<lambda>(r, t). Data_line r t) xs)"
    by (simp add: algebra_simps)
  have "peek (length pre) 2 ?buf = Inr (le_bytes 2 r)" "peek (length pre + 8) 8 ?buf = Inr (le_bytes 8 t)"
    using long(1) by (simp_all add: peek_def x)
  then show ?case
    using rest by (subst echo_items.simps) (simp add: x)
qed

lemma echo_items_bounds:
  assumes "off mod 16 = 4" and "off \<le> 1012" and "length buf = 1024" and "num \<le> 1024"
  shows "if 1012 < num then echo_items off num buf = Inl OutOfBounds else \<exists>ls. echo_items off num buf = Inr ls"
  using assms
proof (induction off num buf rule: echo_items.induct)
  case (1 off num buf)
  have "off = 1012 \<or> off + 16 \<le> 1012" using "1.prems"(1,2) by presburger
  then consider "\<not> off < num" | "off < num" "off = 1012" | "off < num" "off + 16 \<le> 1012" by blast
  then show ?case
  proof cases
    case 1
    then show ?thesis using assms "1.prems"(2) by (subst echo_items.simps) simp
  next
    case 2
    then show ?thesis using "1.prems" by (subst echo_items.simps) (simp add: peek_def)
  next
    case 3
    have peeks: "peek off 2 buf = Inr (take 2 (drop off buf))" "peek (off + 8) 8 buf = Inr (take 8 (drop (off + 8) buf))"
      using 3 "1.prems"(3) by (simp_all add: peek_def)
    have "(off + 16) mod 16 = 4" using "1.prems"(1) by simp
    from "1.IH" [OF 3(1) peeks this 3(2) "1.prems"(3,4)]
    show ?thesis using 3(1) peeks by (subst (1 2) echo_items.simps) (auto split: if_splits)
  qed
qed

text \<open>The lines for one packet.\<close>

definition packet_lines :: "SENSOR \<Rightarrow> sample list \<Rightarrow> printed list" where
  "packet_lines s xs =
     Received_bytes (4 + 16 * int (length xs)) #
     Header_line (sensor_code s) (of_nat (4 + 16 * length xs)) # map (\<lambda>(r, t). Data_line r t) xs"

lemma echo_packet:
  assumes "length old = 4 + 16 * length xs" and "4 + 16 * length xs \<le> length buf"
  shows "\<exists>buf'. echo_datagram (Received (packet s xs old)) buf = Inr (packet_lines s xs, buf') \<and> length buf' = length buf"
proof -
  let ?n = "4 + 16 * length xs"
  let ?h = "[sensor_code s, 0] @ le_bytes 2 (of_nat ?n :: u16)"
  let ?buf = "?h @ overlay xs (drop 4 old) @ drop ?n buf"
  have len: "length (packet s xs old) = ?n" using assms(1) length_packet [of xs old s] by simp
  have "poke 0 (packet s xs old) buf = Some ?buf"
    using assms(2) len by (simp add: poke_def) (simp add: packet_def header_bytes_def)
  moreover have "peek 0 4 ?buf = Inr ?h" by (simp add: peek_def)
  moreover have "echo_items (length ?h) (length ?h + 16 * length xs) ?buf = Inr (map (\<lambda>(r, t). Data_line r t) xs)"
    using assms(1) by (intro echo_items_overlay) simp
  moreover have "length ?buf = length buf"
    using assms by (simp add: length_overlay)
  ultimately show ?thesis
    using len by (intro exI [of _ ?buf]) (simp add: echo_datagram_def packet_lines_def)
qed

section \<open>Properties\<close>



text \<open>A datagram makes the server read past its buffer exactly when it has more than 1012 bytes,
  although the buffer holds 1024.\<close>

lemma echo_overreads:
  assumes "length mem = 1024" and "length bs \<le> 1024"
  shows "echo_datagram (Received bs) mem = Inl OutOfBounds \<longleftrightarrow> 1012 < length bs"
proof -
  obtain buf where buf: "poke 0 bs mem = Some buf" "length buf = 1024"
    using assms by (auto simp: poke_def)
  show ?thesis
    using echo_items_bounds [of 4 buf "length bs"] buf assms(2)
    by (auto simp: echo_datagram_def peek_def split: if_splits)
qed

section \<open>The client\<close>

text \<open>The letters are sent one per datagram; after 127 the increment of a signed \<open>char\<close> wraps, as
  GCC defines the conversion. \<open>Some (- 1)\<close> is the exit code after a failed send, \<open>None\<close> that the
  program is still running when the list of results ends.\<close>

datatype sent_line = Sent char | Warning char | Sendto_failed

fun send_test_loop :: "send_result list \<Rightarrow> u8 \<Rightarrow> sent_line list \<times> int option" where
  "send_test_loop [] c = ([], None)"
| "send_test_loop (r # rs) c =
     (case r of
        Send_failed \<Rightarrow> ([Sendto_failed], Some (- 1))
      | Taken n \<Rightarrow>
          (let line = (if n = 0 then Warning (char_of (unat c)) else Sent (char_of (unat c)));
               (ls, code) = send_test_loop rs (c + 1)
           in (line # ls, code)))"

datatype send_test_line = No_sending_socket | Created_socket | Bad_address | Line sent_line

definition send_test_main :: "int \<Rightarrow> bool \<Rightarrow> send_result list \<Rightarrow> send_test_line list \<times> int option" where
  "send_test_main sockFd addr_ok rs =
     (if sockFd < 0 then ([No_sending_socket], Some (- 1))
      else if \<not> addr_ok then ([Created_socket, Bad_address], Some (- 1))
      else (let (ls, code) = send_test_loop rs 65 in (Created_socket # map Line ls, code)))"

text \<open>As long as the kernel takes every byte, the letters go through all characters in order and
  start again after 256.\<close>

lemma send_test_letters:
  "send_test_loop (replicate n (Taken 1)) c = (map (\<lambda>i. Sent (char_of (unat (c + of_nat i)))) [0..<n], None)"
proof (induction n arbitrary: c)
  case (Suc n)
  have "[0..<Suc n] = 0 # map Suc [0..<n]" by (simp add: map_Suc_upt upt_conv_Cons del: upt_Suc)
  then show ?case using Suc.IH [of "c + 1"] by (simp add: comp_def algebra_simps del: upt_Suc)
qed simp

end
