(* ===== verification/Spec2Isabelle.thy ===== *)
theory Spec2Isabelle
  imports Resfet_Recording Resfet_Log_Types Resfet_Config_Test Resfet_Decoder Resfet_Udp_Tests
begin

text \<open>
  RESFET, the controller of a rocket engine test stand: a model of the C++ program under
  src/ and include/ and the theorems about it.

  The program. \<open>main\<close> (src/main.cpp) reads a configuration file, sets up the hardware and the
  sockets, starts three sensor threads, builds the visitor of the configured engine, whose
  constructor starts the ignition monitor, and then serves TCP clients one after the
  other: every byte of a client is a command of the visitor. The threads share the pins of
  the board, the mutex of the ADCs and two flags: \<open>ignitionOn\<close>, set and cleared by commands
  and cleared by the monitor, and \<open>pressureShutoff\<close>, written by the sensor thread of PT1 and
  cleared by a START command.

  Theories, in the order of their dependence:

  Resfet_Base is the prelude: undefined behaviour as an error value, byte buffers,
  little-endian words, C strings, decimal numbers, wrap-around of unsigned arithmetic.
  Resfet_World is the shared state and the pin map (rpi_pins.hpp): calls of the bcm2835
  library are a trace, and \<open>commanded\<close> reads off the level last driven on a pin.

  Resfet_Adc (adc.hpp, adc.cpp) is the ADC reader: the sensor tables, registration and
  \<open>read_item\<close>. Resfet_Init (init.cpp) is the initialisation of the pins and the SPI bus.
  Resfet_Ring (circular_buffer.cpp) is the ring of samples, with indices for pointers and
  an error for an access outside the allocation; Resfet_Packet builds packets from it and
  reads them back with a model of scripts/struct_decoder.py.

  Resfet_Config (config.cpp) is the parser of configuration files and its getters, with
  the library functions \<open>getline\<close> and \<open>sscanf\<close> as far as the formats use them;
  Resfet_Config_Spec is the line-by-line specification of the format and what the parser
  does by it. Resfet_Visitor (worker_visitor.cpp, luna_visitor.cpp, titan_visitor.cpp) is
  the command handlers and the constructors.

  Resfet_Time (time.cpp) is time stamps. Resfet_Ignition is the ignition monitor,
  \<open>ignThreadFunc\<close> of worker_visitor.cpp: a state machine with one step for every access to
  a flag, a pin or the clock, interleaved with the command thread (the actions of a
  handler, one at a time) and the sensor thread by the relation \<open>sys_step\<close>, and the
  abstract burn it implements. Resfet_Burn has the properties of a burn of the monitor.

  Resfet_Sampling and Resfet_Thread (thread.cpp) are the sensor threads: the constructor,
  the sleep, the loop, the batching of samples and the pressure shutoff; Resfet_Rounds
  follows a thread through any number of rounds, from what the ADC delivers to the log, the
  network and the shutoff flag. Resfet_System puts the monitor, the command thread and the
  sensor threads together: a state with all of them, one function \<open>take_turn\<close> for a turn of
  any, and the simulation of the whole by \<open>sys_step\<close>. Resfet_Shutoff follows a pressure above
  its limit through it: the average of the thread that reads PT1 rises, the flag is set, and
  the monitor ends the burn. Resfet_Net (Tcp.cpp,
  Udp.cpp) is the sockets over a list of what the kernel calls return. Resfet_Main
  (main.cpp) is the start of the program and the loop that serves clients;
  Resfet_Program runs the threads from the state the start has reached, and Resfet_Startup
  from the moment the sensor threads are started, with the rest of main's start (the
  constructor of the visitor and the initialisation of the pins) taken step by step between
  their turns.
  Resfet_Logger (logger.cpp) is the loggers with the formats the sources print;
  Resfet_Log_Types shows that what the other components log is well typed for them, in whole
  runs of the program as well.
  Resfet_Libtest (libtest.cpp) is the testing library, and Resfet_Config_Test
  (test/config/) the test program of the parser run on it. Resfet_Decoder
  (scripts/struct_decoder.py) is the script that turns logs into text, and
  Resfet_Udp_Tests (test/udp/) the server and the client that exercise the network.
  Resfet_Recording follows the samples of a run of the whole program through the rings, the
  packets and the loggers' files to the text of that script.

  Interfaces. \<open>bounded_queue\<close> (Resfet_Packet) is the contract of a bounded queue, interpreted
  on the ring of the code; \<open>value_map\<close> (Resfet_Config_Spec) is what the getters rely on,
  interpreted on the map the parser fills; \<open>visitor\<close> (Resfet_Visitor) is what main relies
  on when it calls \<open>visitCommand\<close> through the base class, interpreted on the three visitors
  and used again by Resfet_Main for whole sessions.

  What is shown. Samples: the ring is a queue on enough memory, packets carry the oldest
  samples and decode to them, the constructor's allocation is one cell short, every 17th
  sample is lost, and the sensor threads leave their memory in the 18th round; on rings
  with enough memory a thread runs on forever, its log and its packets carry the same
  samples, and the decoder and the test server print exactly those. Readings:
  a read selects one ADC and returns its 14-bit value; a rejected index blocks every
  reader. Configuration: the parser equals its specification on every file, errors,
  overflows and endless loops included, reads back what is printed, hands the burn
  parameters and pressure limits through to the threads that use them, and passes the
  repository's own test of it. Commands: what
  each visitor drives, that STOP leaves the valves closed, that main executes exactly the
  commands of its clients in order, and that it holds exactly the descriptors of its own
  sockets and of the client it serves. Burns: the monitor refines the abstract burn,
  every burn ends, and an enabled pressure shutoff ends it within eleven steps. The whole
  program: its threads do no more than the abstract interleaving, so from the start of its
  threads on the valves are closed outside burns; a stop ends a burn within ten turns of the
  monitor; a pressure above its limit ends one, from the first high reading of the ADC to the
  pins, within the rounds of the thread that let the old average fade and eleven turns of the
  monitor; and with one more item of memory for each ring no run leaves it, and the decoder
  script prints exactly what the run has sampled and logged. And the
  races and the uninitialised flag of the code. Loggers: which
  entries are written, when the log file exists, and that no entry has arguments of the
  wrong type; the assertions of the testing library that do.

  Bounds and fuel. Every loop is a recursion with a termination proof, but for two: the
  parser's, which may run forever, is a \<open>partial_function (option)\<close> whose value \<open>None\<close> means
  that it does not return, and the endless loops of the threads are steps and rounds of a
  number that a theorem names. A list of kernel results that runs out is a call that
  blocks, \<open>None\<close> in Resfet_Net and \<open>Blocked\<close> in Resfet_Main. Machine integers have their
  width, except the counters of the testing library.

  Parameters. The bytes an ADC answers, the clock, the calendar date, the results of the
  kernel and of \<open>getnameinfo\<close>, the rounding of \<open>double\<close> arithmetic, \<open>atof\<close>, the numbers of
  the pins in bcm2835.h, and the contents of memory the program reads before it writes it
  are arguments of the definitions. Laws that are assumed of them are hypotheses of the
  theorems: that arithmetic is exact or its relative error is bounded, that a sleep takes
  its time, that \<open>recv\<close> and \<open>send\<close> handle at most the bytes they are given, and
  \<open>kernel_laws\<close> for directories.

  Not modelled. The scheduler, beyond interleaving the turns of the threads, of which one
  pass of a sensor thread over a buffer is one; the memory model below that of atomic
  flags (the threads share pins through the library only); interleavings inside a pass, which
  the mutex of the ADCs keeps apart for the sensor threads but not for the initialisation of
  the pins (the lemma \<open>initialisation_deselects_read\<close> shows what that does to a read); the
  destructors, which run only when the
  process ends; the text the program prints to the standard output other than through a
  logger; builds with MOCK, which leave out the hardware; the build files. In the runs of
  Resfet_System the commands are those of the visitor of the base class, which the visitors
  of the engines equal on pins and flags.
\<close>

end
